theory Spec2Isabelle
  imports Main
begin

section \<open>The encoding registry of \<open>tiktoken_ai.py\<close>\<close>

text \<open>
  The module keeps two globals, \<open>ENCODINGS\<close> (the cache of built encodings) and
  \<open>ENCODING_CONSTRUCTORS\<close> (the table of factories, \<open>None\<close> until the first build), and
  offers \<open>get_encoding\<close> and \<open>list_encoding_names\<close>. The model is sequential: one thread
  runs one call after the other, so taking and releasing the re-entrant \<open>_lock\<close> changes
  nothing and is left out. Calls to \<open>logger\<close> do not touch the registry and are left out
  as well.
\<close>

subsection \<open>Data\<close>

type_synonym plugin_name = string
type_synonym enc_name = string

text \<open>
  The keyword arguments a factory returns (\<open>dict[str, Any]\<close>). The registry hands them to
  \<open>Encoding\<close> untouched, so the values are kept abstract as strings.
\<close>

type_synonym params = "(string \<times> string) list"

text \<open>
  Python exceptions, by class, with their message. \<open>OtherError\<close> stands for every class
  that is neither caught by \<open>except AttributeError\<close> nor by \<open>except ImportError\<close> and
  is not \<open>ValueError\<close>; \<open>AssertionError\<close> is what a failed \<open>assert\<close> raises. An exception
  is its class and its message here; the traceback and the cause that \<open>raise ... from e\<close>
  chains to it are left out.
\<close>

datatype exn =
    ValueError string
  | AttributeError string
  | ImportError string
  | AssertionError
  | OtherError string

text \<open>
  The calls the registry makes to its collaborators, in the order they happen:
  \<open>importlib.import_module(mod_name)\<close>, \<open>constructor()\<close> for the factory found under an
  encoding name, and \<open>Encoding(**kwargs)\<close> for that name. The trace is bookkeeping of the
  model only; it is what a load counter or a construction counter of a test would count.
\<close>

datatype event =
    Import plugin_name
  | Factory enc_name
  | Build enc_name

text \<open>
  An \<open>Encoding\<close> object. Python compares the cached objects by identity, so the object
  carries the position in the trace of the \<open>Build\<close> call that made it: two calls of
  \<open>Encoding(...)\<close> never give the same object.
\<close>

datatype encoding = Encoding_obj (obj_id: nat) (obj_params: params)

text \<open>
  A factory is a zero-argument callable that returns keyword arguments or raises. It may
  depend on anything that happened before, which the model passes in as the trace.
\<close>

type_synonym constructor = "event list \<Rightarrow> exn + params"

text \<open>
  The table is a Python \<open>dict\<close>, which iterates in insertion order: an association list,
  with new keys appended at the end.
\<close>

type_synonym table = "(enc_name \<times> constructor) list"

text \<open>
  What \<open>importlib.import_module(mod_name)\<close> followed by \<open>mod.ENCODING_CONSTRUCTORS\<close> and
  \<open>constructors.items()\<close> gives for one plugin module: the import raises, the attribute
  is missing (an \<open>AttributeError\<close>), or the items of the module's dictionary in order.
\<close>

datatype plugin =
    ImportRaises exn
  | NoConstructors
  | Constructors table

text \<open>
  The process environment, which the source reaches through \<open>pkgutil\<close>, \<open>importlib\<close> and
  \<open>tiktoken.core.Encoding\<close>. \<open>available_plugin_modules\<close> is the value of the memoised
  \<open>_available_plugin_modules()\<close>; \<open>Encoding_init\<close> tells whether \<open>Encoding(**kwargs)\<close>
  raises (\<open>Some e\<close>) or returns a new object (\<open>None\<close>).
\<close>

record env =
  available_plugin_modules :: "plugin_name list"
  import_module :: "plugin_name \<Rightarrow> plugin"
  Encoding_init :: "event list \<Rightarrow> params \<Rightarrow> exn option"

record registry =
  ENCODINGS :: "enc_name \<rightharpoonup> encoding"
  ENCODING_CONSTRUCTORS :: "table option"
  trace :: "event list"

definition process_start :: registry where
  "process_start = \<lparr>ENCODINGS = Map.empty, ENCODING_CONSTRUCTORS = None, trace = []\<rparr>"

subsection \<open>Messages\<close>

text \<open>
  \<open>repr\<close> of a string, which \<open>str\<close> of a list applies to each element and the f-string of
  the unknown-encoding message prints for the module names. A character of the model is a
  code point below 256; names with higher code points are outside the model. As CPython
  does: the quote is the double quote when the string has a single quote and no double
  quote, and the single quote otherwise; the quote and the backslash get a backslash; tab,
  newline and carriage return become \<open>\t\<close>, \<open>\n\<close>, \<open>\r\<close>; a printable character is copied;
  anything else becomes \<open>\xNN\<close> in lower-case hexadecimal. Below 256 the printable code
  points are 32 to 126 and 161 to 255 without 173.
\<close>

definition py_isprintable :: "char \<Rightarrow> bool" where
  "py_isprintable c \<longleftrightarrow>
     (let n = (of_char c :: nat) in (32 \<le> n \<and> n < 127) \<or> (161 \<le> n \<and> n \<noteq> 173))"

definition hex_digit :: "nat \<Rightarrow> char" where
  "hex_digit d = (if d < 10 then char_of (48 + d) else char_of (87 + d))"

definition py_escape_char :: "char \<Rightarrow> char \<Rightarrow> string" where
  "py_escape_char quote c =
     (if c = quote \<or> c = CHR 0x5C then [CHR 0x5C, c]
      else if c = CHR 0x09 then [CHR 0x5C, CHR ''t'']
      else if c = CHR 0x0A then [CHR 0x5C, CHR ''n'']
      else if c = CHR 0x0D then [CHR 0x5C, CHR ''r'']
      else if py_isprintable c then [c]
      else [CHR 0x5C, CHR ''x'', hex_digit (of_char c div 16), hex_digit (of_char c mod 16)])"

definition py_quote :: "string \<Rightarrow> char" where
  "py_quote s = (if CHR 0x27 \<in> set s \<and> CHR 0x22 \<notin> set s then CHR 0x22 else CHR 0x27)"

definition py_repr_str :: "string \<Rightarrow> string" where
  "py_repr_str s = [py_quote s] @ concat (map (py_escape_char (py_quote s)) s) @ [py_quote s]"

text \<open>\<open>str\<close> of a list of strings: the \<open>repr\<close> of the elements, joined by a comma and a space.\<close>

fun py_join :: "string list \<Rightarrow> string" where
  "py_join [] = []"
| "py_join [x] = x"
| "py_join (x # y # ys) = x @ '', '' @ py_join (y # ys)"

definition py_str_list :: "string list \<Rightarrow> string" where
  "py_str_list xs = ''['' @ py_join (map py_repr_str xs) @ '']''"

definition duplicate_msg :: "enc_name \<Rightarrow> plugin_name \<Rightarrow> string" where
  "duplicate_msg enc_name mod_name =
     ''Duplicate encoding name '' @ enc_name @ '' in tiktoken plugin '' @ mod_name"

definition malformed_msg :: "plugin_name \<Rightarrow> string" where
  "malformed_msg mod_name =
     ''tiktoken plugin '' @ mod_name @ '' does not define ENCODING_CONSTRUCTORS''"

definition unknown_msg :: "enc_name \<Rightarrow> plugin_name list \<Rightarrow> string" where
  "unknown_msg encoding_name available_plugins =
     ''Unknown encoding '' @ encoding_name @ ''. Plugins found: '' @ py_str_list available_plugins"

subsection \<open>\<open>_find_constructors\<close>\<close>

text \<open>
  The inner loop over \<open>constructors.items()\<close>. It writes into the global table as it
  goes, so the table comes back also when the loop raises: whatever was registered before
  the \<open>raise\<close> stays registered.
\<close>

fun register_constructors ::
  "plugin_name \<Rightarrow> table \<Rightarrow> table \<Rightarrow> exn option \<times> table" where
  "register_constructors mod_name [] tbl = (None, tbl)"
| "register_constructors mod_name ((enc_name, constructor) # rest) tbl =
     (if enc_name \<in> set (map fst tbl)
      then (Some (ValueError (duplicate_msg enc_name mod_name)), tbl)
      else register_constructors mod_name rest (tbl @ [(enc_name, constructor)]))"

text \<open>
  The two \<open>except\<close> clauses around the body of the outer loop: an \<open>AttributeError\<close>
  becomes a \<open>ValueError\<close>, an \<open>ImportError\<close> is raised again, anything else is not caught.
\<close>

fun except_clauses :: "plugin_name \<Rightarrow> exn \<Rightarrow> exn" where
  "except_clauses mod_name (AttributeError m) = ValueError (malformed_msg mod_name)"
| "except_clauses mod_name (ImportError m) = ImportError m"
| "except_clauses mod_name e = e"

text \<open>The \<open>try\<close> block for one module.\<close>

definition try_body :: "env \<Rightarrow> plugin_name \<Rightarrow> table \<Rightarrow> exn option \<times> table" where
  "try_body E mod_name tbl =
     (case import_module E mod_name of
        ImportRaises e \<Rightarrow> (Some e, tbl)
      | NoConstructors \<Rightarrow>
          (Some (AttributeError (''module has no attribute ENCODING_CONSTRUCTORS'')), tbl)
      | Constructors constructors \<Rightarrow> register_constructors mod_name constructors tbl)"

definition load_plugin :: "env \<Rightarrow> plugin_name \<Rightarrow> table \<Rightarrow> exn option \<times> table" where
  "load_plugin E mod_name tbl =
     (case try_body E mod_name tbl of
        (None, tbl') \<Rightarrow> (None, tbl')
      | (Some e, tbl') \<Rightarrow> (Some (except_clauses mod_name e), tbl'))"

text \<open>The outer loop over the plugin modules; every import is recorded in the trace.\<close>

fun load_plugins ::
  "env \<Rightarrow> plugin_name list \<Rightarrow> table \<Rightarrow> event list \<Rightarrow> exn option \<times> table \<times> event list" where
  "load_plugins E [] tbl tr = (None, tbl, tr)"
| "load_plugins E (mod_name # mods) tbl tr =
     (case load_plugin E mod_name tbl of
        (Some e, tbl') \<Rightarrow> (Some e, tbl', tr @ [Import mod_name])
      | (None, tbl') \<Rightarrow> load_plugins E mods tbl' (tr @ [Import mod_name]))"

text \<open>
  \<open>_find_constructors\<close>: returns at once when the global is not \<open>None\<close>; otherwise the
  global is set to the empty dictionary first and filled by the loop. No handler puts
  \<open>None\<close> back, so after a raise the global holds what the loop had registered so far.
\<close>

definition find_constructors :: "env \<Rightarrow> registry \<Rightarrow> exn option \<times> registry" where
  "find_constructors E s =
     (case ENCODING_CONSTRUCTORS s of
        Some tbl \<Rightarrow> (None, s)
      | None \<Rightarrow>
          (case load_plugins E (available_plugin_modules E) [] (trace s) of
             (r, tbl, tr) \<Rightarrow> (r, s\<lparr>ENCODING_CONSTRUCTORS := Some tbl, trace := tr\<rparr>)))"

text \<open>
  The lines both public operations share:
  \<open>if ENCODING_CONSTRUCTORS is None: _find_constructors(); assert ENCODING_CONSTRUCTORS is not None\<close>.
\<close>

definition ensure_constructors :: "env \<Rightarrow> registry \<Rightarrow> (exn + table) \<times> registry" where
  "ensure_constructors E s =
     (case ENCODING_CONSTRUCTORS s of
        Some tbl \<Rightarrow> (Inr tbl, s)
      | None \<Rightarrow>
          (case find_constructors E s of
             (Some e, s') \<Rightarrow> (Inl e, s')
           | (None, s') \<Rightarrow>
               (case ENCODING_CONSTRUCTORS s' of
                  None \<Rightarrow> (Inl AssertionError, s')
                | Some tbl \<Rightarrow> (Inr tbl, s'))))"

subsection \<open>\<open>get_encoding\<close> and \<open>list_encoding_names\<close>\<close>

text \<open>
  The last four statements of \<open>get_encoding\<close>: call the factory, call \<open>Encoding\<close> on
  what it returns, store the object, return it. An exception of either call leaves before
  the store.
\<close>

definition construct :: "env \<Rightarrow> enc_name \<Rightarrow> constructor \<Rightarrow> registry \<Rightarrow> (exn + encoding) \<times> registry" where
  "construct E encoding_name constructor s =
     (let s1 = s\<lparr>trace := trace s @ [Factory encoding_name]\<rparr> in
      case constructor (trace s) of
        Inl e \<Rightarrow> (Inl e, s1)
      | Inr kwargs \<Rightarrow>
          (let s2 = s1\<lparr>trace := trace s1 @ [Build encoding_name]\<rparr> in
           case Encoding_init E (trace s1) kwargs of
             Some e \<Rightarrow> (Inl e, s2)
           | None \<Rightarrow>
               (let enc = Encoding_obj (length (trace s1)) kwargs in
                (Inr enc, s2\<lparr>ENCODINGS := (ENCODINGS s2)(encoding_name \<mapsto> enc)\<rparr>))))"

text \<open>
  \<open>get_encoding\<close>. The test of the cache before the lock and the same test under the lock
  see the same cache in a sequential run, so they are one case distinction here.
\<close>

definition get_encoding :: "env \<Rightarrow> enc_name \<Rightarrow> registry \<Rightarrow> (exn + encoding) \<times> registry" where
  "get_encoding E encoding_name s =
     (case ENCODINGS s encoding_name of
        Some enc \<Rightarrow> (Inr enc, s)
      | None \<Rightarrow>
          (case ensure_constructors E s of
             (Inl e, s') \<Rightarrow> (Inl e, s')
           | (Inr tbl, s') \<Rightarrow>
               (case map_of tbl encoding_name of
                  None \<Rightarrow>
                    (Inl (ValueError (unknown_msg encoding_name (available_plugin_modules E))), s')
                | Some constructor \<Rightarrow> construct E encoding_name constructor s')))"

definition list_encoding_names :: "env \<Rightarrow> registry \<Rightarrow> (exn + enc_name list) \<times> registry" where
  "list_encoding_names E s =
     (case ensure_constructors E s of
        (Inl e, s') \<Rightarrow> (Inl e, s')
      | (Inr tbl, s') \<Rightarrow> (Inr (map fst tbl), s'))"

subsection \<open>Sequences of calls\<close>

datatype call = GetEncoding enc_name | ListEncodingNames

fun after_call :: "env \<Rightarrow> call \<Rightarrow> registry \<Rightarrow> registry" where
  "after_call E (GetEncoding n) s = snd (get_encoding E n s)"
| "after_call E ListEncodingNames s = snd (list_encoding_names E s)"

fun run :: "env \<Rightarrow> call list \<Rightarrow> registry \<Rightarrow> registry" where
  "run E [] s = s"
| "run E (c # cs) s = run E cs (after_call E c s)"

subsection \<open>Notions used by the properties\<close>

fun is_import :: "event \<Rightarrow> bool" where
  "is_import (Import m) = True"
| "is_import e = False"

fun is_construction :: "event \<Rightarrow> bool" where
  "is_construction (Import m) = False"
| "is_construction e = True"

text \<open>
  A plugin is well formed when its import returns and it has the dictionary. The names
  the plugins contribute are the keys of their dictionaries, module after module in the
  order of \<open>_available_plugin_modules()\<close>, inside a module in the order of its dictionary.
\<close>

fun well_formed :: "plugin \<Rightarrow> bool" where
  "well_formed (Constructors cs) = True"
| "well_formed p = False"

fun constructors_of :: "plugin \<Rightarrow> table" where
  "constructors_of (Constructors cs) = cs"
| "constructors_of p = []"

definition contributed :: "env \<Rightarrow> plugin_name list \<Rightarrow> table" where
  "contributed E mods = concat (map (\<lambda>m. constructors_of (import_module E m)) mods)"

definition plugins_ok :: "env \<Rightarrow> bool" where
  "plugins_ok E \<longleftrightarrow>
     list_all (\<lambda>m. well_formed (import_module E m)) (available_plugin_modules E) \<and>
     distinct (map fst (contributed E (available_plugin_modules E)))"

text \<open>
  The calls of \<open>get_encoding(name)\<close> in a sequence of calls that raised.
\<close>

fun failed_calls :: "env \<Rightarrow> enc_name \<Rightarrow> call list \<Rightarrow> registry \<Rightarrow> nat" where
  "failed_calls E name [] s = 0"
| "failed_calls E name (c # cs) s =
     (if c = GetEncoding name \<and> isl (fst (get_encoding E name s)) then 1 else 0)
       + failed_calls E name cs (after_call E c s)"

text \<open>
  Reading a Python list of string literals back from its text, character by character:
  \<open>[\<close>, then literals in single or double quotes separated by a comma and a space, then
  \<open>]\<close>; inside a literal a backslash introduces \<open>\\\<close>, \<open>\'\<close>, \<open>\"\<close>, \<open>\t\<close>, \<open>\n\<close>, \<open>\r\<close> or
  \<open>\xNN\<close>. A message lists the plugin modules when this reader gets exactly their names
  from it. The reader is written from Python's syntax of literals, not from \<open>py_str_list\<close>.
\<close>

datatype reader =
    Open | First | Quote | Str char | Esc char | Hex1 char | Hex2 char nat
  | After | Space | Closed

definition hex_value :: "char \<Rightarrow> nat option" where
  "hex_value c =
     (let n = (of_char c :: nat) in
      if 48 \<le> n \<and> n \<le> 57 then Some (n - 48)
      else if 97 \<le> n \<and> n \<le> 102 then Some (n - 87)
      else None)"

fun read_str_list :: "reader \<Rightarrow> string \<Rightarrow> string list \<Rightarrow> string \<Rightarrow> string list option" where
  "read_str_list st cur acc [] = (if st = Closed then Some acc else None)"
| "read_str_list Open cur acc (c # cs) =
     (if c = CHR ''['' then read_str_list First cur acc cs else None)"
| "read_str_list First cur acc (c # cs) =
     (if c = CHR '']'' then read_str_list Closed cur acc cs
      else if c = CHR 0x27 \<or> c = CHR 0x22 then read_str_list (Str c) [] acc cs
      else None)"
| "read_str_list Quote cur acc (c # cs) =
     (if c = CHR 0x27 \<or> c = CHR 0x22 then read_str_list (Str c) [] acc cs else None)"
| "read_str_list (Str q) cur acc (c # cs) =
     (if c = q then read_str_list After [] (acc @ [cur]) cs
      else if c = CHR 0x5C then read_str_list (Esc q) cur acc cs
      else read_str_list (Str q) (cur @ [c]) acc cs)"
| "read_str_list (Esc q) cur acc (c # cs) =
     (if c = CHR 0x5C \<or> c = CHR 0x27 \<or> c = CHR 0x22 then read_str_list (Str q) (cur @ [c]) acc cs
      else if c = CHR ''t'' then read_str_list (Str q) (cur @ [CHR 0x09]) acc cs
      else if c = CHR ''n'' then read_str_list (Str q) (cur @ [CHR 0x0A]) acc cs
      else if c = CHR ''r'' then read_str_list (Str q) (cur @ [CHR 0x0D]) acc cs
      else if c = CHR ''x'' then read_str_list (Hex1 q) cur acc cs
      else None)"
| "read_str_list (Hex1 q) cur acc (c # cs) =
     (case hex_value c of None \<Rightarrow> None | Some h \<Rightarrow> read_str_list (Hex2 q h) cur acc cs)"
| "read_str_list (Hex2 q h) cur acc (c # cs) =
     (case hex_value c of None \<Rightarrow> None
      | Some l \<Rightarrow> read_str_list (Str q) (cur @ [char_of (16 * h + l)]) acc cs)"
| "read_str_list After cur acc (c # cs) =
     (if c = CHR '']'' then read_str_list Closed cur acc cs
      else if c = CHR '','' then read_str_list Space cur acc cs
      else None)"
| "read_str_list Space cur acc (c # cs) =
     (if c = CHR '' '' then read_str_list Quote cur acc cs else None)"
| "read_str_list Closed cur acc (c # cs) = None"

text \<open>
  Every cached name is a key of the table. It holds when the process starts and every
  call keeps it.
\<close>

definition cache_registered :: "registry \<Rightarrow> bool" where
  "cache_registered s \<longleftrightarrow>
     dom (ENCODINGS s) \<subseteq>
       (case ENCODING_CONSTRUCTORS s of None \<Rightarrow> {} | Some tbl \<Rightarrow> set (map fst tbl))"

subsection \<open>Example environments\<close>

definition factory_ok :: "string \<Rightarrow> constructor" where
  "factory_ok n = (\<lambda>tr. Inr [(''name'', n)])"

text \<open>A factory that raises the first time it is called and returns from then on.\<close>

definition factory_flaky :: "enc_name \<Rightarrow> constructor" where
  "factory_flaky n =
     (\<lambda>tr. if Factory n \<in> set tr then Inr [(''name'', n)] else Inl (OtherError ''not ready''))"

text \<open>Two well-formed plugins: \<open>p1\<close> registers \<open>a\<close> and \<open>b\<close>, \<open>p2\<close> registers \<open>c\<close>.\<close>

definition env_two_plugins :: env where
  "env_two_plugins =
     \<lparr>available_plugin_modules = [''p1'', ''p2''],
      import_module = (\<lambda>m.
        if m = ''p1'' then Constructors [(''a'', factory_ok ''a''), (''b'', factory_ok ''b'')]
        else if m = ''p2'' then Constructors [(''c'', factory_ok ''c'')]
        else ImportRaises (ImportError ''no such module'')),
      Encoding_init = (\<lambda>tr kwargs. None)\<rparr>"

text \<open>Two plugins that both register \<open>x\<close>.\<close>

definition env_duplicate :: env where
  "env_duplicate =
     \<lparr>available_plugin_modules = [''p1'', ''p2''],
      import_module = (\<lambda>m.
        if m = ''p1'' then Constructors [(''x'', factory_ok ''x1'')]
        else if m = ''p2'' then Constructors [(''x'', factory_ok ''x2'')]
        else ImportRaises (ImportError ''no such module'')),
      Encoding_init = (\<lambda>tr kwargs. None)\<rparr>"

text \<open>
  \<open>p1\<close> registers \<open>a\<close>, \<open>p2\<close> has no \<open>ENCODING_CONSTRUCTORS\<close>, \<open>p3\<close> registers \<open>b\<close>, and the
  import of \<open>p4\<close> raises \<open>ImportError\<close>.
\<close>

definition env_broken :: env where
  "env_broken =
     \<lparr>available_plugin_modules = [''p1'', ''p2'', ''p3'', ''p4''],
      import_module = (\<lambda>m.
        if m = ''p1'' then Constructors [(''a'', factory_ok ''a'')]
        else if m = ''p2'' then NoConstructors
        else if m = ''p3'' then Constructors [(''b'', factory_ok ''b'')]
        else ImportRaises (ImportError ''no such module'')),
      Encoding_init = (\<lambda>tr kwargs. None)\<rparr>"

text \<open>
  Three plugin modules, two of them with a name that \<open>repr\<close> does not print between plain
  single quotes: \<open>it's\<close> and \<open>a\b\<close>. Only \<open>p1\<close> registers an encoding.
\<close>

definition env_odd_names :: env where
  "env_odd_names =
     \<lparr>available_plugin_modules = [''p1'', ''it's'', [CHR ''a'', CHR 0x5C, CHR ''b'']],
      import_module = (\<lambda>m.
        if m = ''p1'' then Constructors [(''a'', factory_ok ''a'')] else Constructors []),
      Encoding_init = (\<lambda>tr kwargs. None)\<rparr>"

text \<open>One plugin whose factory for \<open>x\<close> raises on its first call.\<close>

definition env_flaky :: env where
  "env_flaky =
     \<lparr>available_plugin_modules = [''p1''],
      import_module = (\<lambda>m.
        if m = ''p1'' then Constructors [(''x'', factory_flaky ''x'')]
        else ImportRaises (ImportError ''no such module'')),
      Encoding_init = (\<lambda>tr kwargs. None)\<rparr>"

text \<open>One plugin whose keyword arguments \<open>Encoding\<close> rejects the first time.\<close>

definition env_bad_params :: env where
  "env_bad_params =
     \<lparr>available_plugin_modules = [''p1''],
      import_module = (\<lambda>m.
        if m = ''p1'' then Constructors [(''x'', factory_ok ''x'')]
        else ImportRaises (ImportError ''no such module'')),
      Encoding_init = (\<lambda>tr kwargs.
        if Build ''x'' \<in> set tr then None else Some (OtherError ''bad arguments''))\<rparr>"

section \<open>Properties\<close>

subsection \<open>What each step leaves alone\<close>

lemma find_constructors_built:
  "ENCODING_CONSTRUCTORS s = Some tbl \<Longrightarrow> find_constructors E s = (None, s)"
  by (simp add: find_constructors_def)

lemma ensure_constructors_built:
  "ENCODING_CONSTRUCTORS s = Some tbl \<Longrightarrow> ensure_constructors E s = (Inr tbl, s)"
  by (simp add: ensure_constructors_def)

lemma find_constructors_ENCODINGS:
  "ENCODINGS (snd (find_constructors E s)) = ENCODINGS s"
  by (simp add: find_constructors_def split: option.splits prod.splits)

lemma find_constructors_not_None:
  "ENCODING_CONSTRUCTORS (snd (find_constructors E s)) \<noteq> None"
  by (auto simp add: find_constructors_def split: option.splits prod.splits)

lemma ensure_constructors_ENCODINGS:
  "ENCODINGS (snd (ensure_constructors E s)) = ENCODINGS s"
  using find_constructors_ENCODINGS [of E s]
  by (auto simp add: ensure_constructors_def split: option.splits prod.splits)

lemma ensure_constructors_Inr:
  "ensure_constructors E s = (Inr tbl, s') \<Longrightarrow> ENCODING_CONSTRUCTORS s' = Some tbl"
  by (auto simp add: ensure_constructors_def split: option.splits prod.splits)

lemma load_plugins_trace:
  "\<exists>d. snd (snd (load_plugins E mods tbl tr)) = tr @ d \<and> (\<forall>e \<in> set d. is_import e)"
proof (induction mods arbitrary: tbl tr)
  case Nil
  then show ?case by simp
next
  case (Cons m mods)
  show ?case
  proof (cases "load_plugin E m tbl")
    case (Pair r tbl')
    show ?thesis
    proof (cases r)
      case None
      obtain d where "snd (snd (load_plugins E mods tbl' (tr @ [Import m]))) = (tr @ [Import m]) @ d"
        "\<forall>e \<in> set d. is_import e"
        using Cons.IH by blast
      then show ?thesis using Pair None by (intro exI [of _ "Import m # d"]) simp
    next
      case (Some e)
      then show ?thesis using Pair by (intro exI [of _ "[Import m]"]) simp
    qed
  qed
qed

lemma find_constructors_trace:
  "\<exists>d. trace (snd (find_constructors E s)) = trace s @ d \<and> (\<forall>e \<in> set d. is_import e)"
proof (cases "ENCODING_CONSTRUCTORS s")
  case None
  obtain d where d: "snd (snd (load_plugins E (available_plugin_modules E) [] (trace s))) = trace s @ d"
    "\<forall>e \<in> set d. is_import e"
    using load_plugins_trace by blast
  show ?thesis
    using None d by (intro exI [of _ d]) (auto simp add: find_constructors_def split: prod.splits)
next
  case (Some tbl)
  then show ?thesis by (simp add: find_constructors_def)
qed

lemma ensure_constructors_trace:
  "\<exists>d. trace (snd (ensure_constructors E s)) = trace s @ d \<and> (\<forall>e \<in> set d. is_import e)"
proof (cases "ENCODING_CONSTRUCTORS s")
  case None
  then have "snd (ensure_constructors E s) = snd (find_constructors E s)"
    by (simp add: ensure_constructors_def split: prod.splits option.splits)
  then show ?thesis using find_constructors_trace [of E s] by simp
next
  case (Some tbl)
  then show ?thesis by (simp add: ensure_constructors_def)
qed

lemma construct_ENCODINGS_other:
  "n \<noteq> name \<Longrightarrow> ENCODINGS (snd (construct E name c s)) n = ENCODINGS s n"
  by (simp add: construct_def Let_def split: sum.splits option.splits)

lemma construct_Inl_ENCODINGS:
  "construct E name c s = (Inl e, s') \<Longrightarrow> ENCODINGS s' = ENCODINGS s"
  by (auto simp add: construct_def Let_def split: sum.splits option.splits)

lemma construct_Inr_ENCODINGS:
  "construct E name c s = (Inr enc, s') \<Longrightarrow> ENCODINGS s' = (ENCODINGS s)(name \<mapsto> enc)"
  by (auto simp add: construct_def Let_def split: sum.splits option.splits)

lemma construct_ENCODING_CONSTRUCTORS:
  "ENCODING_CONSTRUCTORS (snd (construct E name c s)) = ENCODING_CONSTRUCTORS s"
  by (simp add: construct_def Let_def split: sum.splits option.splits)

lemma construct_trace:
  "\<exists>d. trace (snd (construct E name c s)) = trace s @ Factory name # d \<and> set d \<subseteq> {Build name}"
  by (simp add: construct_def Let_def split: sum.splits option.splits)

lemma get_encoding_cached:
  "ENCODINGS s name = Some enc \<Longrightarrow> get_encoding E name s = (Inr enc, s)"
  by (simp add: get_encoding_def)

lemma get_encoding_Inl_ENCODINGS:
  assumes "get_encoding E name s = (Inl e, s')"
  shows "ENCODINGS s' = ENCODINGS s"
proof (cases "ENCODINGS s name")
  case (Some enc)
  then show ?thesis using assms by (simp add: get_encoding_def)
next
  case None
  obtain r s0 where ens: "ensure_constructors E s = (r, s0)"
    by (cases "ensure_constructors E s")
  have s0: "ENCODINGS s0 = ENCODINGS s"
    using ensure_constructors_ENCODINGS [of E s] ens by simp
  show ?thesis
  proof (cases r)
    case (Inl e0)
    then show ?thesis using assms None ens s0 by (simp add: get_encoding_def)
  next
    case (Inr tbl)
    show ?thesis
    proof (cases "map_of tbl name")
      case None': None
      then show ?thesis using assms None ens Inr s0 by (simp add: get_encoding_def)
    next
      case (Some c)
      then have "construct E name c s0 = (Inl e, s')"
        using assms None ens Inr by (simp add: get_encoding_def)
      then show ?thesis using construct_Inl_ENCODINGS s0 by metis
    qed
  qed
qed

lemma get_encoding_keeps:
  assumes "ENCODINGS s n = Some enc"
  shows "ENCODINGS (snd (get_encoding E name s)) n = Some enc"
proof (cases "ENCODINGS s name")
  case (Some enc')
  then show ?thesis using assms by (simp add: get_encoding_def)
next
  case None
  then have ne: "n \<noteq> name" using assms by auto
  obtain r s0 where ens: "ensure_constructors E s = (r, s0)"
    by (cases "ensure_constructors E s")
  have s0: "ENCODINGS s0 = ENCODINGS s"
    using ensure_constructors_ENCODINGS [of E s] ens by simp
  show ?thesis
    using None ens s0 assms construct_ENCODINGS_other [OF ne]
    by (simp add: get_encoding_def split: sum.splits option.splits)
qed

lemma list_encoding_names_ENCODINGS:
  "ENCODINGS (snd (list_encoding_names E s)) = ENCODINGS s"
  using ensure_constructors_ENCODINGS [of E s]
  by (auto simp add: list_encoding_names_def split: prod.splits sum.splits)

lemma after_call_keeps:
  "ENCODINGS s n = Some enc \<Longrightarrow> ENCODINGS (after_call E c s) n = Some enc"
  by (cases c) (simp_all add: get_encoding_keeps list_encoding_names_ENCODINGS)

lemma run_keeps:
  "ENCODINGS s n = Some enc \<Longrightarrow> ENCODINGS (run E cs s) n = Some enc"
  by (induction cs arbitrary: s) (simp_all add: after_call_keeps)

text \<open>Once the table is there, no call changes it or imports anything.\<close>

lemma get_encoding_table:
  assumes "ENCODING_CONSTRUCTORS s = Some tbl"
  shows "ENCODING_CONSTRUCTORS (snd (get_encoding E name s)) = Some tbl"
  using assms construct_ENCODING_CONSTRUCTORS
  by (simp add: get_encoding_def ensure_constructors_built split: option.splits)

lemma list_encoding_names_built:
  "ENCODING_CONSTRUCTORS s = Some tbl \<Longrightarrow> list_encoding_names E s = (Inr (map fst tbl), s)"
  by (simp add: list_encoding_names_def ensure_constructors_built)

lemma after_call_table:
  "ENCODING_CONSTRUCTORS s = Some tbl \<Longrightarrow> ENCODING_CONSTRUCTORS (after_call E c s) = Some tbl"
  by (cases c) (simp_all add: get_encoding_table list_encoding_names_built)

lemma run_table:
  "ENCODING_CONSTRUCTORS s = Some tbl \<Longrightarrow> ENCODING_CONSTRUCTORS (run E cs s) = Some tbl"
  by (induction cs arbitrary: s) (simp_all add: after_call_table)

lemma ensure_constructors_filter:
  assumes "\<And>m. \<not> P (Import m)"
  shows "filter P (trace (snd (ensure_constructors E s))) = filter P (trace s)"
proof -
  obtain d where d: "trace (snd (ensure_constructors E s)) = trace s @ d" "\<forall>e \<in> set d. is_import e"
    using ensure_constructors_trace by blast
  have "\<forall>e \<in> set d. \<not> P e"
  proof
    fix e assume "e \<in> set d"
    then have "is_import e" using d(2) by blast
    then show "\<not> P e" using assms by (cases e) simp_all
  qed
  then show ?thesis using d(1) by simp
qed

lemma construct_filter:
  assumes "\<not> P (Factory name)" "\<not> P (Build name)"
  shows "filter P (trace (snd (construct E name c s))) = filter P (trace s)"
  using assms by (simp add: construct_def Let_def split: sum.splits option.splits)

lemma get_encoding_filter:
  assumes "\<And>m. \<not> P (Import m)"
    and "ENCODINGS s name = None \<Longrightarrow> \<not> P (Factory name) \<and> \<not> P (Build name)"
  shows "filter P (trace (snd (get_encoding E name s))) = filter P (trace s)"
proof (cases "ENCODINGS s name")
  case (Some enc)
  then show ?thesis by (simp add: get_encoding_def)
next
  case None
  obtain r s0 where ens: "ensure_constructors E s = (r, s0)"
    by (cases "ensure_constructors E s")
  have s0: "filter P (trace s0) = filter P (trace s)"
    using ensure_constructors_filter [of P E s] assms(1) ens by simp
  have "filter P (trace (snd (construct E name c s0))) = filter P (trace s0)" for c
    using construct_filter assms(2) None by blast
  then show ?thesis
    using None ens s0 by (simp add: get_encoding_def split: sum.splits option.splits)
qed

lemma list_encoding_names_filter:
  assumes "\<And>m. \<not> P (Import m)"
  shows "filter P (trace (snd (list_encoding_names E s))) = filter P (trace s)"
  using ensure_constructors_filter [of P E s] assms
  by (auto simp add: list_encoding_names_def split: prod.splits sum.splits)

lemma get_encoding_built_imports:
  assumes "ENCODING_CONSTRUCTORS s = Some tbl"
  shows "filter is_import (trace (snd (get_encoding E name s))) = filter is_import (trace s)"
  using assms construct_filter [of is_import name E _ s]
  by (simp add: get_encoding_def ensure_constructors_built split: option.splits)

lemma after_call_built_imports:
  assumes "ENCODING_CONSTRUCTORS s = Some tbl"
  shows "filter is_import (trace (after_call E c s)) = filter is_import (trace s)"
  using assms by (cases c) (simp_all add: get_encoding_built_imports list_encoding_names_built)

lemma run_built_imports:
  "ENCODING_CONSTRUCTORS s = Some tbl \<Longrightarrow>
   filter is_import (trace (run E cs s)) = filter is_import (trace s)"
proof (induction cs arbitrary: s)
  case Nil
  then show ?case by simp
next
  case (Cons c cs)
  have "ENCODING_CONSTRUCTORS (after_call E c s) = Some tbl"
    using Cons.prems by (rule after_call_table)
  then have "filter is_import (trace (run E cs (after_call E c s))) = filter is_import (trace (after_call E c s))"
    by (rule Cons.IH)
  then show ?case using after_call_built_imports [OF Cons.prems] by simp
qed

lemma after_call_cached_filter:
  assumes "ENCODINGS s name = Some enc"
  shows "filter (\<lambda>e. e = Factory name \<or> e = Build name) (trace (after_call E c s))
       = filter (\<lambda>e. e = Factory name \<or> e = Build name) (trace s)"
proof (cases c)
  case (GetEncoding n)
  have "filter (\<lambda>e. e = Factory name \<or> e = Build name) (trace (snd (get_encoding E n s)))
      = filter (\<lambda>e. e = Factory name \<or> e = Build name) (trace s)"
    using assms by (intro get_encoding_filter) auto
  then show ?thesis using GetEncoding by simp
next
  case ListEncodingNames
  have "filter (\<lambda>e. e = Factory name \<or> e = Build name) (trace (snd (list_encoding_names E s)))
      = filter (\<lambda>e. e = Factory name \<or> e = Build name) (trace s)"
    by (intro list_encoding_names_filter) auto
  then show ?thesis using ListEncodingNames by simp
qed

lemma run_cached_filter:
  "ENCODINGS s name = Some enc \<Longrightarrow>
   filter (\<lambda>e. e = Factory name \<or> e = Build name) (trace (run E cs s))
     = filter (\<lambda>e. e = Factory name \<or> e = Build name) (trace s)"
proof (induction cs arbitrary: s)
  case Nil
  then show ?case by simp
next
  case (Cons c cs)
  have "ENCODINGS (after_call E c s) name = Some enc"
    using Cons.prems by (rule after_call_keeps)
  then show ?case
    using Cons.IH [of "after_call E c s"] after_call_cached_filter [OF Cons.prems, of E c] by simp
qed

subsection \<open>A build over well-formed plugins\<close>

lemma register_constructors_ok:
  "distinct (map fst (tbl @ cs)) \<Longrightarrow> register_constructors m cs tbl = (None, tbl @ cs)"
proof (induction cs arbitrary: tbl)
  case Nil
  then show ?case by simp
next
  case (Cons p cs)
  obtain n c where p: "p = (n, c)" by (cases p)
  have "n \<notin> set (map fst tbl)" using Cons.prems p by auto
  moreover have "distinct (map fst ((tbl @ [(n, c)]) @ cs))" using Cons.prems p by simp
  ultimately show ?case using Cons.IH [of "tbl @ [(n, c)]"] p by simp
qed

lemma load_plugin_ok:
  assumes "import_module E m = Constructors cs" "distinct (map fst (tbl @ cs))"
  shows "load_plugin E m tbl = (None, tbl @ cs)"
  using assms by (simp add: load_plugin_def try_body_def register_constructors_ok)

lemma load_plugins_ok:
  "list_all (\<lambda>m. well_formed (import_module E m)) mods \<Longrightarrow>
   distinct (map fst (tbl @ contributed E mods)) \<Longrightarrow>
   load_plugins E mods tbl tr = (None, tbl @ contributed E mods, tr @ map Import mods)"
proof (induction mods arbitrary: tbl tr)
  case Nil
  then show ?case by (simp add: contributed_def)
next
  case (Cons m mods)
  obtain cs where cs: "import_module E m = Constructors cs"
    using Cons.prems(1) by (cases "import_module E m") simp_all
  have split: "contributed E (m # mods) = cs @ contributed E mods"
    using cs by (simp add: contributed_def)
  have d1: "distinct (map fst (tbl @ cs))"
    using Cons.prems(2) split by auto
  have d2: "distinct (map fst ((tbl @ cs) @ contributed E mods))"
    using Cons.prems(2) split by simp
  have wf: "list_all (\<lambda>m. well_formed (import_module E m)) mods"
    using Cons.prems(1) by simp
  show ?case
    using load_plugin_ok [OF cs d1] Cons.IH [OF wf d2] split by simp
qed

lemma find_constructors_ok:
  assumes "plugins_ok E" "ENCODING_CONSTRUCTORS s = None"
  shows "find_constructors E s =
    (None, s\<lparr>ENCODING_CONSTRUCTORS := Some (contributed E (available_plugin_modules E)),
             trace := trace s @ map Import (available_plugin_modules E)\<rparr>)"
proof -
  have "load_plugins E (available_plugin_modules E) [] (trace s) =
      (None, [] @ contributed E (available_plugin_modules E),
       trace s @ map Import (available_plugin_modules E))"
    using assms(1) by (intro load_plugins_ok) (simp_all add: plugins_ok_def)
  then show ?thesis using assms(2) by (simp add: find_constructors_def)
qed

lemma ensure_constructors_ok:
  assumes "plugins_ok E"
    and "ENCODING_CONSTRUCTORS s = None \<or>
         ENCODING_CONSTRUCTORS s = Some (contributed E (available_plugin_modules E))"
  shows "fst (ensure_constructors E s) = Inr (contributed E (available_plugin_modules E))"
proof (cases "ENCODING_CONSTRUCTORS s")
  case None
  then show ?thesis
    using find_constructors_ok [OF assms(1) None] by (simp add: ensure_constructors_def)
next
  case (Some tbl)
  then show ?thesis using assms(2) by (simp add: ensure_constructors_def)
qed

lemma ensure_constructors_table:
  "ENCODING_CONSTRUCTORS (snd (ensure_constructors E s)) =
     (case fst (ensure_constructors E s) of Inr tbl \<Rightarrow> Some tbl
      | Inl e \<Rightarrow> ENCODING_CONSTRUCTORS (snd (find_constructors E s)))"
  by (auto simp add: ensure_constructors_def find_constructors_def split: option.splits prod.splits)

lemma get_encoding_table_ok:
  assumes "plugins_ok E"
    and "ENCODING_CONSTRUCTORS s = None \<or>
         ENCODING_CONSTRUCTORS s = Some (contributed E (available_plugin_modules E))"
  shows "ENCODING_CONSTRUCTORS (snd (get_encoding E name s)) = None \<or>
         ENCODING_CONSTRUCTORS (snd (get_encoding E name s))
           = Some (contributed E (available_plugin_modules E))"
proof (cases "ENCODINGS s name")
  case (Some enc)
  then show ?thesis using assms(2) by (simp add: get_encoding_def)
next
  case None
  obtain r s0 where ens: "ensure_constructors E s = (r, s0)"
    by (cases "ensure_constructors E s")
  have r: "r = Inr (contributed E (available_plugin_modules E))"
    using ensure_constructors_ok [OF assms] ens by simp
  have s0: "ENCODING_CONSTRUCTORS s0 = Some (contributed E (available_plugin_modules E))"
    using ens r by (simp add: ensure_constructors_Inr)
  show ?thesis
    using None ens r s0 construct_ENCODING_CONSTRUCTORS
    by (simp add: get_encoding_def split: option.splits)
qed

lemma list_encoding_names_table_ok:
  assumes "plugins_ok E"
    and "ENCODING_CONSTRUCTORS s = None \<or>
         ENCODING_CONSTRUCTORS s = Some (contributed E (available_plugin_modules E))"
  shows "ENCODING_CONSTRUCTORS (snd (list_encoding_names E s))
           = Some (contributed E (available_plugin_modules E))"
proof -
  obtain r s0 where ens: "ensure_constructors E s = (r, s0)"
    by (cases "ensure_constructors E s")
  have r: "r = Inr (contributed E (available_plugin_modules E))"
    using ensure_constructors_ok [OF assms] ens by simp
  have s0: "ENCODING_CONSTRUCTORS s0 = Some (contributed E (available_plugin_modules E))"
    using ens r by (simp add: ensure_constructors_Inr)
  show ?thesis using ens r s0 by (simp add: list_encoding_names_def)
qed

lemma after_call_table_ok:
  assumes "plugins_ok E"
    and "ENCODING_CONSTRUCTORS s = None \<or>
         ENCODING_CONSTRUCTORS s = Some (contributed E (available_plugin_modules E))"
  shows "ENCODING_CONSTRUCTORS (after_call E c s) = None \<or>
         ENCODING_CONSTRUCTORS (after_call E c s)
           = Some (contributed E (available_plugin_modules E))"
  using get_encoding_table_ok [OF assms] list_encoding_names_table_ok [OF assms]
  by (cases c) simp_all

lemma run_table_ok:
  "plugins_ok E \<Longrightarrow>
   ENCODING_CONSTRUCTORS s = None \<or>
     ENCODING_CONSTRUCTORS s = Some (contributed E (available_plugin_modules E)) \<Longrightarrow>
   ENCODING_CONSTRUCTORS (run E cs s) = None \<or>
     ENCODING_CONSTRUCTORS (run E cs s) = Some (contributed E (available_plugin_modules E))"
proof (induction cs arbitrary: s)
  case Nil
  then show ?case by simp
next
  case (Cons c cs)
  show ?case
    using Cons.IH [OF Cons.prems(1) after_call_table_ok [OF Cons.prems, of c]] by simp
qed

lemma list_encoding_names_ok:
  assumes "plugins_ok E"
    and "ENCODING_CONSTRUCTORS s = None \<or>
         ENCODING_CONSTRUCTORS s = Some (contributed E (available_plugin_modules E))"
  shows "fst (list_encoding_names E s) = Inr (map fst (contributed E (available_plugin_modules E)))"
proof -
  obtain r s0 where ens: "ensure_constructors E s = (r, s0)"
    by (cases "ensure_constructors E s")
  have r: "r = Inr (contributed E (available_plugin_modules E))"
    using ensure_constructors_ok [OF assms] ens by simp
  show ?thesis using ens r by (simp add: list_encoding_names_def)
qed

subsection \<open>What a call to \<open>get_encoding\<close> does to the cache\<close>

lemma get_encoding_Inr_ENCODINGS:
  assumes "get_encoding E name s = (Inr enc, s')"
  shows "ENCODINGS s' name = Some enc"
proof (cases "ENCODINGS s name")
  case (Some enc')
  then show ?thesis using assms by (simp add: get_encoding_def)
next
  case None
  obtain r s0 where ens: "ensure_constructors E s = (r, s0)"
    by (cases "ensure_constructors E s")
  show ?thesis
    using assms None ens construct_Inr_ENCODINGS [of E name _ s0 enc s']
    by (auto simp add: get_encoding_def split: sum.splits option.splits)
qed

lemma get_encoding_change:
  "ENCODINGS (snd (get_encoding E name s)) = ENCODINGS s \<or>
   (\<exists>enc. ENCODINGS s name = None \<and>
      ENCODINGS (snd (get_encoding E name s)) = (ENCODINGS s)(name \<mapsto> enc))"
proof (cases "get_encoding E name s")
  case (Pair r s')
  show ?thesis
  proof (cases r)
    case (Inl e)
    then show ?thesis using Pair get_encoding_Inl_ENCODINGS [of E name s e s'] by simp
  next
    case (Inr enc)
    show ?thesis
    proof (cases "ENCODINGS s name")
      case (Some enc')
      then show ?thesis by (simp add: get_encoding_def)
    next
      case None
      obtain r0 s0 where ens: "ensure_constructors E s = (r0, s0)"
        by (cases "ensure_constructors E s")
      have s0: "ENCODINGS s0 = ENCODINGS s"
        using ensure_constructors_ENCODINGS [of E s] ens by simp
      have "ENCODINGS s' = (ENCODINGS s)(name \<mapsto> enc)"
        using Pair Inr None ens s0 construct_Inr_ENCODINGS [of E name _ s0 enc s']
        by (auto simp add: get_encoding_def split: sum.splits option.splits)
      then show ?thesis using Pair None by auto
    qed
  qed
qed

lemma get_encoding_built:
  assumes "ENCODINGS s name = None" "ENCODING_CONSTRUCTORS s = Some tbl" "map_of tbl name = Some c"
  shows "get_encoding E name s = construct E name c s"
  using assms by (simp add: get_encoding_def ensure_constructors_built)

lemma construct_trace_exact:
  "trace (snd (construct E name c s)) =
     trace s @ Factory name # (case c (trace s) of Inl e \<Rightarrow> [] | Inr kwargs \<Rightarrow> [Build name])"
  by (simp add: construct_def Let_def split: sum.splits option.splits)

lemma construct_raises:
  assumes "c (trace s) = Inl e \<or>
     (\<exists>kwargs. c (trace s) = Inr kwargs \<and> Encoding_init E (trace s @ [Factory name]) kwargs = Some e)"
  shows "fst (construct E name c s) = Inl e"
  using assms by (auto simp add: construct_def Let_def)

subsection \<open>Cached names are registered names\<close>

lemma cache_registered_start: "cache_registered process_start"
  by (simp add: cache_registered_def process_start_def)

lemma ensure_constructors_registered:
  assumes "cache_registered s"
  shows "cache_registered (snd (ensure_constructors E s))"
proof (cases "ENCODING_CONSTRUCTORS s")
  case None
  then have "dom (ENCODINGS s) = {}" using assms by (simp add: cache_registered_def)
  then have "dom (ENCODINGS (snd (ensure_constructors E s))) = {}"
    by (simp only: ensure_constructors_ENCODINGS)
  then show ?thesis by (simp add: cache_registered_def)
next
  case (Some tbl)
  then show ?thesis using assms by (simp add: ensure_constructors_built)
qed

lemma construct_registered:
  assumes "cache_registered s" "ENCODING_CONSTRUCTORS s = Some tbl" "map_of tbl name = Some c"
  shows "cache_registered (snd (construct E name c s))"
proof -
  have in_tbl: "name \<in> set (map fst tbl)"
    using assms(3) by (metis map_of_eq_None_iff option.distinct(1) set_map)
  have sub: "dom (ENCODINGS s) \<subseteq> set (map fst tbl)"
    using assms(1,2) by (simp add: cache_registered_def)
  obtain r s' where c: "construct E name c s = (r, s')" by (cases "construct E name c s")
  have tbl': "ENCODING_CONSTRUCTORS s' = Some tbl"
    using construct_ENCODING_CONSTRUCTORS [of E name c s] c assms(2) by simp
  have "dom (ENCODINGS s') \<subseteq> set (map fst tbl)"
  proof (cases r)
    case (Inl e)
    then show ?thesis using c construct_Inl_ENCODINGS [of E name c s e s'] sub by simp
  next
    case (Inr enc)
    then show ?thesis using c construct_Inr_ENCODINGS [of E name c s enc s'] sub in_tbl by simp
  qed
  then show ?thesis using c tbl' by (simp add: cache_registered_def)
qed

lemma get_encoding_registered:
  assumes "cache_registered s"
  shows "cache_registered (snd (get_encoding E name s))"
proof (cases "ENCODINGS s name")
  case (Some enc)
  then show ?thesis using assms by (simp add: get_encoding_def)
next
  case None
  obtain r s0 where ens: "ensure_constructors E s = (r, s0)"
    by (cases "ensure_constructors E s")
  have s0: "cache_registered s0"
    using ensure_constructors_registered [OF assms, of E] ens by simp
  show ?thesis
  proof (cases r)
    case (Inl e)
    then show ?thesis using None ens s0 by (simp add: get_encoding_def)
  next
    case (Inr tbl)
    then have tbl: "ENCODING_CONSTRUCTORS s0 = Some tbl"
      using ens by (simp add: ensure_constructors_Inr)
    show ?thesis
      using None ens Inr s0 construct_registered [OF s0 tbl]
      by (simp add: get_encoding_def split: option.splits)
  qed
qed

lemma list_encoding_names_registered:
  assumes "cache_registered s"
  shows "cache_registered (snd (list_encoding_names E s))"
  using ensure_constructors_registered [OF assms, of E]
  by (auto simp add: list_encoding_names_def split: prod.splits sum.splits)

lemma after_call_registered:
  "cache_registered s \<Longrightarrow> cache_registered (after_call E c s)"
  by (cases c) (simp_all add: get_encoding_registered list_encoding_names_registered)

lemma run_registered:
  "cache_registered s \<Longrightarrow> cache_registered (run E cs s)"
  by (induction cs arbitrary: s) (simp_all add: after_call_registered)

lemma unknown_name_lookup:
  assumes "cache_registered s"
    and "ensure_constructors E s = (Inr tbl, s')"
    and "name \<notin> set (map fst tbl)"
  shows "get_encoding E name s =
           (Inl (ValueError (unknown_msg name (available_plugin_modules E))), s')"
proof -
  have none: "ENCODINGS s name = None"
  proof (rule ccontr)
    assume "ENCODINGS s name \<noteq> None"
    then have d: "name \<in> dom (ENCODINGS s)" by auto
    then obtain tbl' where t: "ENCODING_CONSTRUCTORS s = Some tbl'" "name \<in> set (map fst tbl')"
      using assms(1) by (cases "ENCODING_CONSTRUCTORS s") (auto simp add: cache_registered_def)
    then have "tbl = tbl'" using assms(2) by (simp add: ensure_constructors_built)
    then show False using t(2) assms(3) by simp
  qed
  have "map_of tbl name = None"
    using assms(3) by (simp add: map_of_eq_None_iff)
  then show ?thesis using none assms(2) by (simp add: get_encoding_def)
qed

subsection \<open>Where the exceptions of a table build come from\<close>

lemma register_constructors_error:
  "fst (register_constructors m cs tbl) = Some e \<Longrightarrow>
     \<exists>n \<in> set (map fst cs). e = ValueError (duplicate_msg n m)"
proof (induction cs arbitrary: tbl)
  case Nil
  then show ?case by simp
next
  case (Cons p cs)
  obtain n c where p: "p = (n, c)" by (cases p)
  show ?case
  proof (cases "n \<in> set (map fst tbl)")
    case True
    then show ?thesis using Cons.prems p by auto
  next
    case False
    then have "fst (register_constructors m cs (tbl @ [(n, c)])) = Some e"
      using Cons.prems p by simp
    then show ?thesis using Cons.IH by fastforce
  qed
qed

lemma except_clauses_cases:
  "(\<exists>msg. except_clauses m e = ValueError msg) \<or> except_clauses m e = e"
  by (cases e) simp_all

lemma load_plugin_duplicate:
  assumes "import_module E m = Constructors cs" "fst (load_plugin E m tbl) = Some e"
  shows "\<exists>n \<in> set (map fst cs). e = ValueError (duplicate_msg n m)"
proof -
  obtain r tbl' where reg: "register_constructors m cs tbl = (r, tbl')"
    by (cases "register_constructors m cs tbl")
  then obtain x where x: "r = Some x" "e = except_clauses m x"
    using assms by (cases r) (simp_all add: load_plugin_def try_body_def)
  then have "\<exists>n \<in> set (map fst cs). x = ValueError (duplicate_msg n m)"
    using register_constructors_error [of m cs tbl x] reg by simp
  then obtain n where n: "n \<in> set (map fst cs)" "x = ValueError (duplicate_msg n m)"
    by blast
  then have "e = ValueError (duplicate_msg n m)" using x(2) by simp
  then show ?thesis using n(1) by blast
qed

lemma load_plugin_error:
  assumes "fst (load_plugin E m tbl) = Some e"
  shows "(\<exists>msg. e = ValueError msg) \<or> import_module E m = ImportRaises e"
proof (cases "import_module E m")
  case (ImportRaises x)
  then have "e = except_clauses m x"
    using assms by (simp add: load_plugin_def try_body_def)
  then show ?thesis using ImportRaises except_clauses_cases [of m x] by auto
next
  case NoConstructors
  then show ?thesis using assms by (auto simp add: load_plugin_def try_body_def)
next
  case (Constructors cs)
  then show ?thesis using load_plugin_duplicate [OF Constructors assms] by auto
qed

lemma load_plugins_error:
  "fst (load_plugins E mods tbl tr) = Some e \<Longrightarrow>
     (\<exists>msg. e = ValueError msg) \<or> (\<exists>m \<in> set mods. import_module E m = ImportRaises e)"
proof (induction mods arbitrary: tbl tr)
  case Nil
  then show ?case by simp
next
  case (Cons m mods)
  obtain r tbl' where lp: "load_plugin E m tbl = (r, tbl')" by (cases "load_plugin E m tbl")
  show ?case
  proof (cases r)
    case None
    then have "fst (load_plugins E mods tbl' (tr @ [Import m])) = Some e"
      using Cons.prems lp by simp
    then show ?thesis using Cons.IH by fastforce
  next
    case (Some x)
    then have "fst (load_plugin E m tbl) = Some e" using Cons.prems lp by simp
    then show ?thesis using load_plugin_error by fastforce
  qed
qed

lemma find_constructors_error:
  assumes "fst (find_constructors E s) = Some e"
  shows "(\<exists>msg. e = ValueError msg) \<or>
     (\<exists>m \<in> set (available_plugin_modules E). import_module E m = ImportRaises e)"
proof (cases "ENCODING_CONSTRUCTORS s")
  case None
  then have "fst (load_plugins E (available_plugin_modules E) [] (trace s)) = Some e"
    using assms by (simp add: find_constructors_def split: prod.splits)
  then show ?thesis by (rule load_plugins_error)
next
  case (Some tbl)
  then show ?thesis using assms by (simp add: find_constructors_def)
qed

lemma ensure_constructors_error:
  assumes "fst (ensure_constructors E s) = Inl e"
  shows "fst (find_constructors E s) = Some e"
proof (cases "ENCODING_CONSTRUCTORS s")
  case None
  obtain r s' where f: "find_constructors E s = (r, s')" by (cases "find_constructors E s")
  have "ENCODING_CONSTRUCTORS s' \<noteq> None"
    using find_constructors_not_None [of E s] f by simp
  then show ?thesis
    using assms None f by (auto simp add: ensure_constructors_def split: option.splits)
next
  case (Some tbl)
  then show ?thesis using assms by (simp add: ensure_constructors_def)
qed

lemma list_encoding_names_error:
  assumes "fst (list_encoding_names E s) = Inl e"
  shows "(\<exists>msg. e = ValueError msg) \<or>
     (\<exists>m \<in> set (available_plugin_modules E). import_module E m = ImportRaises e)"
proof -
  have "fst (ensure_constructors E s) = Inl e"
    using assms by (auto simp add: list_encoding_names_def split: prod.splits sum.splits)
  then show ?thesis using ensure_constructors_error find_constructors_error by blast
qed

text \<open>The definitions a run on a concrete environment unfolds.\<close>

lemmas registry_defs =
  get_encoding_def list_encoding_names_def ensure_constructors_def find_constructors_def
  load_plugin_def try_body_def construct_def process_start_def Let_def

subsection \<open>The list of plugin modules can be read back from its text\<close>

lemma hex_value_digit: "d < 16 \<Longrightarrow> hex_value (hex_digit d) = Some d"
  by (auto simp add: hex_value_def hex_digit_def Let_def)

lemma of_char_div_16: "(of_char c :: nat) div 16 < 16"
proof -
  have "(of_char c :: nat) < 256" by simp
  then show ?thesis by (simp add: less_mult_imp_div_less)
qed

lemma char_of_hex: "char_of (16 * ((of_char c :: nat) div 16) + of_char c mod 16) = c"
  by simp

lemma read_escape_char:
  assumes "q = CHR 0x27 \<or> q = CHR 0x22"
  shows "read_str_list (Str q) cur acc (py_escape_char q c @ rest)
       = read_str_list (Str q) (cur @ [c]) acc rest"
proof -
  have q: "q \<noteq> CHR 0x5C" using assms by auto
  consider (quoted) "c = q \<or> c = CHR 0x5C"
    | (tab) "c \<noteq> q" "c \<noteq> CHR 0x5C" "c = CHR 0x09"
    | (nl) "c \<noteq> q" "c \<noteq> CHR 0x5C" "c = CHR 0x0A"
    | (cr) "c \<noteq> q" "c \<noteq> CHR 0x5C" "c = CHR 0x0D"
    | (plain) "c \<noteq> q" "c \<noteq> CHR 0x5C" "c \<noteq> CHR 0x09" "c \<noteq> CHR 0x0A" "c \<noteq> CHR 0x0D"
        "py_isprintable c"
    | (hex) "c \<noteq> q" "c \<noteq> CHR 0x5C" "c \<noteq> CHR 0x09" "c \<noteq> CHR 0x0A" "c \<noteq> CHR 0x0D"
        "\<not> py_isprintable c"
    by blast
  then show ?thesis
  proof cases
    case quoted
    then show ?thesis using assms q by (auto simp add: py_escape_char_def)
  next
    case tab
    then show ?thesis using q by (simp add: py_escape_char_def)
  next
    case nl
    then show ?thesis using q by (simp add: py_escape_char_def)
  next
    case cr
    then show ?thesis using q by (simp add: py_escape_char_def)
  next
    case plain
    then show ?thesis by (simp add: py_escape_char_def)
  next
    case hex
    have h1: "hex_value (hex_digit ((of_char c :: nat) div 16)) = Some (of_char c div 16)"
      using of_char_div_16 by (rule hex_value_digit)
    have h2: "hex_value (hex_digit ((of_char c :: nat) mod 16)) = Some (of_char c mod 16)"
      by (rule hex_value_digit) simp
    show ?thesis using hex q h1 h2 char_of_hex [of c] by (simp add: py_escape_char_def)
  qed
qed

lemma read_escaped:
  assumes "q = CHR 0x27 \<or> q = CHR 0x22"
  shows "read_str_list (Str q) cur acc (concat (map (py_escape_char q) s) @ rest)
       = read_str_list (Str q) (cur @ s) acc rest"
proof (induction s arbitrary: cur)
  case Nil
  then show ?case by simp
next
  case (Cons c s)
  have "read_str_list (Str q) cur acc (py_escape_char q c @ (concat (map (py_escape_char q) s) @ rest))
      = read_str_list (Str q) (cur @ [c]) acc (concat (map (py_escape_char q) s) @ rest)"
    using assms by (rule read_escape_char)
  then show ?case using Cons.IH [of "cur @ [c]"] by simp
qed

lemma py_quote_cases: "py_quote s = CHR 0x27 \<or> py_quote s = CHR 0x22"
  by (simp add: py_quote_def)

lemma read_repr_after:
  "read_str_list (Str (py_quote s)) [] acc
     (concat (map (py_escape_char (py_quote s)) s) @ py_quote s # rest)
   = read_str_list After [] (acc @ [s]) rest"
  using read_escaped [OF py_quote_cases, where s = s and cur = "[]" and acc = acc
      and rest = "py_quote s # rest"]
  by simp

lemma read_repr_Quote:
  "read_str_list Quote cur acc (py_repr_str s @ rest) = read_str_list After [] (acc @ [s]) rest"
  using py_quote_cases [of s] read_repr_after [of s acc rest]
  by (auto simp add: py_repr_str_def)

lemma read_repr_First:
  "read_str_list First cur acc (py_repr_str s @ rest) = read_str_list After [] (acc @ [s]) rest"
  using py_quote_cases [of s] read_repr_after [of s acc rest]
  by (auto simp add: py_repr_str_def)

lemma read_more:
  "read_str_list After [] acc (concat (map (\<lambda>s. '', '' @ py_repr_str s) xs) @ '']'')
     = Some (acc @ xs)"
proof (induction xs arbitrary: acc)
  case Nil
  then show ?case by simp
next
  case (Cons x xs)
  have "read_str_list Quote [] acc
      (py_repr_str x @ (concat (map (\<lambda>s. '', '' @ py_repr_str s) xs) @ '']''))
      = read_str_list After [] (acc @ [x]) (concat (map (\<lambda>s. '', '' @ py_repr_str s) xs) @ '']'')"
    by (rule read_repr_Quote)
  then show ?case using Cons.IH [of "acc @ [x]"] by simp
qed

lemma py_join_Cons:
  "py_join (map py_repr_str (x # xs))
     = py_repr_str x @ concat (map (\<lambda>s. '', '' @ py_repr_str s) xs)"
  by (induction xs arbitrary: x) simp_all

lemma read_py_str_list: "read_str_list Open [] [] (py_str_list xs) = Some xs"
proof (cases xs)
  case Nil
  then show ?thesis by (simp add: py_str_list_def)
next
  case (Cons x xs')
  have "read_str_list First [] []
      (py_repr_str x @ (concat (map (\<lambda>s. '', '' @ py_repr_str s) xs') @ '']''))
      = read_str_list After [] ([] @ [x]) (concat (map (\<lambda>s. '', '' @ py_repr_str s) xs') @ '']'')"
    by (rule read_repr_First)
  then show ?thesis
    using Cons read_more [of "[x]" xs'] py_join_Cons [of x xs']
    by (simp add: py_str_list_def)
qed

subsection \<open>How often a call invokes the factory and the builder\<close>

lemma get_encoding_delta:
  "\<exists>imps d. trace (snd (get_encoding E name s)) = trace s @ imps @ d \<and>
     (\<forall>e \<in> set imps. is_import e) \<and>
     (d = [] \<or> d = [Factory name] \<or> d = [Factory name, Build name])"
proof (cases "ENCODINGS s name")
  case (Some enc)
  then show ?thesis by (intro exI [of _ "[]"]) (simp add: get_encoding_def)
next
  case None
  obtain r s0 where ens: "ensure_constructors E s = (r, s0)"
    by (cases "ensure_constructors E s")
  obtain imps where imp: "trace s0 = trace s @ imps" "\<forall>e \<in> set imps. is_import e"
    using ensure_constructors_trace [of E s] ens by auto
  show ?thesis
  proof (cases r)
    case (Inl e)
    then have "trace (snd (get_encoding E name s)) = trace s @ imps @ []"
      using None ens imp(1) by (simp add: get_encoding_def)
    then show ?thesis using imp(2) by blast
  next
    case (Inr tbl)
    show ?thesis
    proof (cases "map_of tbl name")
      case None': None
      then have "trace (snd (get_encoding E name s)) = trace s @ imps @ []"
        using None ens Inr imp(1) by (simp add: get_encoding_def)
      then show ?thesis using imp(2) by blast
    next
      case (Some c)
      then have g: "get_encoding E name s = construct E name c s0"
        using None ens Inr by (simp add: get_encoding_def)
      show ?thesis
      proof (cases "c (trace s0)")
        case (Inl e)
        then have "trace (snd (get_encoding E name s)) = trace s @ imps @ [Factory name]"
          using g imp(1) construct_trace_exact [of E name c s0] by simp
        then show ?thesis using imp(2) by blast
      next
        case (Inr kwargs)
        then have "trace (snd (get_encoding E name s)) =
            trace s @ imps @ [Factory name, Build name]"
          using g imp(1) construct_trace_exact [of E name c s0] by simp
        then show ?thesis using imp(2) by blast
      qed
    qed
  qed
qed

lemma filter_imports_construction:
  "\<forall>e \<in> set imps. is_import e \<Longrightarrow> filter is_construction imps = []"
proof (induction imps)
  case Nil
  then show ?case by simp
next
  case (Cons e es)
  then show ?case by (cases e) simp_all
qed

lemma get_encoding_constructions:
  "filter is_construction (trace (snd (get_encoding E name s)))
     = filter is_construction (trace s)
   \<or> filter is_construction (trace (snd (get_encoding E name s)))
     = filter is_construction (trace s) @ [Factory name]
   \<or> filter is_construction (trace (snd (get_encoding E name s)))
     = filter is_construction (trace s) @ [Factory name, Build name]"
proof -
  obtain imps d where d: "trace (snd (get_encoding E name s)) = trace s @ imps @ d"
    "\<forall>e \<in> set imps. is_import e"
    "d = [] \<or> d = [Factory name] \<or> d = [Factory name, Build name]"
    using get_encoding_delta by blast
  have "filter is_construction (trace (snd (get_encoding E name s)))
      = filter is_construction (trace s) @ filter is_construction d"
    using d(1) filter_imports_construction [OF d(2)] by simp
  then show ?thesis using d(3) by auto
qed

lemma get_encoding_count_step:
  assumes "ev = Factory name \<or> ev = Build name"
  shows "length (filter (\<lambda>e. e = ev) (trace (snd (get_encoding E name s))))
     \<le> Suc (length (filter (\<lambda>e. e = ev) (trace s)))"
proof -
  obtain imps d where d: "trace (snd (get_encoding E name s)) = trace s @ imps @ d"
    "\<forall>e \<in> set imps. is_import e"
    "d = [] \<or> d = [Factory name] \<or> d = [Factory name, Build name]"
    using get_encoding_delta by blast
  have "filter (\<lambda>e. e = ev) imps = []"
    using d(2) assms by (auto simp add: filter_empty_conv)
  moreover have "length (filter (\<lambda>e. e = ev) d) \<le> 1"
    using d(3) assms by auto
  ultimately show ?thesis using d(1) by simp
qed

lemma after_call_count_other:
  assumes "ev = Factory name \<or> ev = Build name" "c \<noteq> GetEncoding name"
  shows "filter (\<lambda>e. e = ev) (trace (after_call E c s)) = filter (\<lambda>e. e = ev) (trace s)"
proof (cases c)
  case (GetEncoding n)
  then have "n \<noteq> name" using assms(2) by simp
  then have "filter (\<lambda>e. e = ev) (trace (snd (get_encoding E n s))) = filter (\<lambda>e. e = ev) (trace s)"
    using assms(1) by (intro get_encoding_filter) auto
  then show ?thesis using GetEncoding by simp
next
  case ListEncodingNames
  have "filter (\<lambda>e. e = ev) (trace (snd (list_encoding_names E s))) = filter (\<lambda>e. e = ev) (trace s)"
    using assms(1) by (intro list_encoding_names_filter) auto
  then show ?thesis using ListEncodingNames by simp
qed

lemma run_count_bound:
  assumes ev: "ev = Factory name \<or> ev = Build name"
  shows "length (filter (\<lambda>e. e = ev) (trace (run E cs s)))
     \<le> length (filter (\<lambda>e. e = ev) (trace s)) + failed_calls E name cs s
         + (if ENCODINGS s name = None then 1 else 0)"
proof (induction cs arbitrary: s)
  case Nil
  then show ?case by simp
next
  case (Cons c cs)
  let ?s' = "after_call E c s"
  let ?n = "\<lambda>s. length (filter (\<lambda>e. e = ev) (trace s))"
  have IH: "?n (run E cs ?s') \<le> ?n ?s' + failed_calls E name cs ?s'
      + (if ENCODINGS ?s' name = None then 1 else 0)"
    by (rule Cons.IH)
  show ?case
  proof (cases "c = GetEncoding name")
    case False
    have same: "?n ?s' = ?n s" using after_call_count_other [OF ev False] by simp
    have "(if ENCODINGS ?s' name = None then 1 else 0)
        \<le> (if ENCODINGS s name = None then 1 else (0::nat))"
    proof (cases "ENCODINGS s name")
      case None
      then show ?thesis by simp
    next
      case (Some enc)
      then have "ENCODINGS ?s' name = Some enc" by (rule after_call_keeps)
      then show ?thesis by simp
    qed
    then show ?thesis using IH same False by simp
  next
    case True
    show ?thesis
    proof (cases "ENCODINGS s name")
      case (Some enc)
      then have "get_encoding E name s = (Inr enc, s)" by (rule get_encoding_cached)
      then show ?thesis using IH True Some by simp
    next
      case None
      have step: "?n ?s' \<le> Suc (?n s)"
        using get_encoding_count_step [OF ev, of E s] True by simp
      obtain r s1 where g: "get_encoding E name s = (r, s1)" by (cases "get_encoding E name s")
      show ?thesis
      proof (cases r)
        case (Inl e)
        have "(if ENCODINGS s1 name = None then 1 else 0) \<le> (1::nat)" by simp
        then have "?n (run E cs s1) \<le> Suc (?n s) + failed_calls E name cs s1 + 1"
          using IH step True g by simp
        then show ?thesis using True None g Inl by simp
      next
        case (Inr enc)
        then have "ENCODINGS s1 name = Some enc"
          using g get_encoding_Inr_ENCODINGS by blast
        then show ?thesis using IH step True None g Inr by simp
      qed
    qed
  qed
qed

subsection \<open>The claims\<close>

text \<open>
  C2, as stated: repeated calls of \<open>get_encoding(name)\<close> invoke the factory of a registered
  name at most once in total. It fails when the first invocation raises: nothing is cached,
  and the second call invokes the factory again. With the factory of \<open>env_flaky\<close>, two
  calls of \<open>get_encoding("x")\<close> from the start of the process invoke it twice.
\<close>

theorem factory_invoked_twice_counterexample:
  "trace (run env_flaky [GetEncoding ''x'', GetEncoding ''x''] process_start)
     = [Import ''p1'', Factory ''x'', Factory ''x'', Build ''x'']
   \<and> \<not> length (filter (\<lambda>e. e = Factory ''x'')
          (trace (run env_flaky [GetEncoding ''x'', GetEncoding ''x''] process_start))) \<le> 1"
  by (simp add: registry_defs env_flaky_def factory_flaky_def)

text \<open>
  C2, amended: the factory and the builder of a name are invoked at most once in total,
  not counting the calls that raised. Precisely: one call of \<open>get_encoding(name)\<close> invokes
  nothing, or the factory of that name once, or the factory once and then \<open>Encoding(...)\<close>
  once; over any sequence of calls from the start of the process the factory of a name is
  invoked at most once more than the number of calls of \<open>get_encoding(name)\<close> that raised,
  and so is the builder, hence at most once when none raised; and once a call of
  \<open>get_encoding(name)\<close> has returned an \<open>Encoding\<close> object, every later call, after any
  other calls of the two public operations, returns that same object and leaves the
  registry as it is, and no call in between invokes the factory or the builder for that
  name again.
\<close>

theorem construction_at_most_once:
  "(filter is_construction (trace (snd (get_encoding E name s)))
      = filter is_construction (trace s)
    \<or> filter is_construction (trace (snd (get_encoding E name s)))
      = filter is_construction (trace s) @ [Factory name]
    \<or> filter is_construction (trace (snd (get_encoding E name s)))
      = filter is_construction (trace s) @ [Factory name, Build name])
   \<and> length (filter (\<lambda>e. e = Factory name) (trace (run E cs process_start)))
        \<le> Suc (failed_calls E name cs process_start)
   \<and> length (filter (\<lambda>e. e = Build name) (trace (run E cs process_start)))
        \<le> Suc (failed_calls E name cs process_start)
   \<and> (get_encoding E name s = (Inr enc, s1) \<longrightarrow>
        get_encoding E name (run E cs s1) = (Inr enc, run E cs s1) \<and>
        filter (\<lambda>e. e = Factory name \<or> e = Build name) (trace (run E cs s1))
          = filter (\<lambda>e. e = Factory name \<or> e = Build name) (trace s1))"
proof -
  have f: "length (filter (\<lambda>e. e = Factory name) (trace (run E cs process_start)))
        \<le> Suc (failed_calls E name cs process_start)"
    using run_count_bound [of "Factory name" name E cs process_start]
    by (simp add: process_start_def)
  have b: "length (filter (\<lambda>e. e = Build name) (trace (run E cs process_start)))
        \<le> Suc (failed_calls E name cs process_start)"
    using run_count_bound [of "Build name" name E cs process_start]
    by (simp add: process_start_def)
  have r: "get_encoding E name (run E cs s1) = (Inr enc, run E cs s1) \<and>
        filter (\<lambda>e. e = Factory name \<or> e = Build name) (trace (run E cs s1))
          = filter (\<lambda>e. e = Factory name \<or> e = Build name) (trace s1)"
    if g: "get_encoding E name s = (Inr enc, s1)"
  proof -
    have c: "ENCODINGS s1 name = Some enc" using g by (rule get_encoding_Inr_ENCODINGS)
    then have "ENCODINGS (run E cs s1) name = Some enc" by (rule run_keeps)
    then have "get_encoding E name (run E cs s1) = (Inr enc, run E cs s1)"
      by (rule get_encoding_cached)
    then show ?thesis using run_cached_filter [OF c] by simp
  qed
  show ?thesis using get_encoding_constructions [of E name s] f b r by blast
qed

theorem construction_at_most_once_witness:
  "failed_calls env_two_plugins ''a''
      [GetEncoding ''a'', GetEncoding ''zz'', GetEncoding ''b'', GetEncoding ''a''] process_start = 0
   \<and> length (filter (\<lambda>e. e = Factory ''a'')
        (trace (run env_two_plugins
          [GetEncoding ''a'', GetEncoding ''zz'', GetEncoding ''b'', GetEncoding ''a'']
          process_start))) \<le> 1
   \<and> length (filter (\<lambda>e. e = Build ''a'')
        (trace (run env_two_plugins
          [GetEncoding ''a'', GetEncoding ''zz'', GetEncoding ''b'', GetEncoding ''a'']
          process_start))) \<le> 1
   \<and> get_encoding env_flaky ''x'' (snd (get_encoding env_flaky ''x'' process_start))
     = (Inr (Encoding_obj 3 [(''name'', ''x'')]),
        \<lparr>ENCODINGS = [''x'' \<mapsto> Encoding_obj 3 [(''name'', ''x'')]],
         ENCODING_CONSTRUCTORS = Some [(''x'', factory_flaky ''x'')],
         trace = [Import ''p1'', Factory ''x'', Factory ''x'', Build ''x'']\<rparr>)
   \<and> fst (get_encoding env_flaky ''x''
        (run env_flaky [GetEncoding ''x'', ListEncodingNames, GetEncoding ''y'']
          \<lparr>ENCODINGS = [''x'' \<mapsto> Encoding_obj 3 [(''name'', ''x'')]],
           ENCODING_CONSTRUCTORS = Some [(''x'', factory_flaky ''x'')],
           trace = [Import ''p1'', Factory ''x'', Factory ''x'', Build ''x'']\<rparr>))
     = Inr (Encoding_obj 3 [(''name'', ''x'')])
   \<and> filter (\<lambda>e. e = Factory ''x'' \<or> e = Build ''x'')
        (trace (run env_flaky [GetEncoding ''x'', ListEncodingNames, GetEncoding ''y'']
          \<lparr>ENCODINGS = [''x'' \<mapsto> Encoding_obj 3 [(''name'', ''x'')]],
           ENCODING_CONSTRUCTORS = Some [(''x'', factory_flaky ''x'')],
           trace = [Import ''p1'', Factory ''x'', Factory ''x'', Build ''x'']\<rparr>))
     = [Factory ''x'', Factory ''x'', Build ''x'']"
proof -
  let ?cs = "[GetEncoding ''a'', GetEncoding ''zz'', GetEncoding ''b'', GetEncoding ''a'']"
  let ?s1 = "\<lparr>ENCODINGS = [''x'' \<mapsto> Encoding_obj 3 [(''name'', ''x'')]],
         ENCODING_CONSTRUCTORS = Some [(''x'', factory_flaky ''x'')],
         trace = [Import ''p1'', Factory ''x'', Factory ''x'', Build ''x'']\<rparr>"
  have z: "failed_calls env_two_plugins ''a'' ?cs process_start = 0"
    by (simp add: registry_defs env_two_plugins_def factory_ok_def)
  have h: "get_encoding env_flaky ''x'' (snd (get_encoding env_flaky ''x'' process_start))
      = (Inr (Encoding_obj 3 [(''name'', ''x'')]), ?s1)"
    by (simp add: registry_defs env_flaky_def factory_flaky_def numeral_3_eq_3)
  have t: "length (filter (\<lambda>e. e = Factory ''a'') (trace (run env_two_plugins ?cs process_start)))
        \<le> Suc (failed_calls env_two_plugins ''a'' ?cs process_start)
      \<and> length (filter (\<lambda>e. e = Build ''a'') (trace (run env_two_plugins ?cs process_start)))
        \<le> Suc (failed_calls env_two_plugins ''a'' ?cs process_start)"
    using construction_at_most_once [of env_two_plugins "''a''" process_start ?cs] by blast
  have u: "get_encoding env_flaky ''x''
        (run env_flaky [GetEncoding ''x'', ListEncodingNames, GetEncoding ''y''] ?s1)
        = (Inr (Encoding_obj 3 [(''name'', ''x'')]),
           run env_flaky [GetEncoding ''x'', ListEncodingNames, GetEncoding ''y''] ?s1)
      \<and> filter (\<lambda>e. e = Factory ''x'' \<or> e = Build ''x'')
          (trace (run env_flaky [GetEncoding ''x'', ListEncodingNames, GetEncoding ''y''] ?s1))
        = filter (\<lambda>e. e = Factory ''x'' \<or> e = Build ''x'') (trace ?s1)"
    using construction_at_most_once
      [of env_flaky "''x''" "snd (get_encoding env_flaky ''x'' process_start)"
          "[GetEncoding ''x'', ListEncodingNames, GetEncoding ''y'']"
          "Encoding_obj 3 [(''name'', ''x'')]" ?s1] h
    by blast
  show ?thesis using z h t u by simp
qed

text \<open>
  C3: a failed table build publishes no partial table, and a later call builds the table
  again. The code does otherwise: \<open>ENCODING_CONSTRUCTORS\<close> is set to a dictionary before
  the loop and no handler resets it. In \<open>env_broken\<close> the first \<open>list_encoding_names()\<close>
  raises for the malformed plugin \<open>p2\<close> and leaves the table with the name of \<open>p1\<close>; the
  second call returns \<open>["a"]\<close> without an error and without importing anything.
\<close>

theorem failed_build_leaves_partial_table:
  "fst (list_encoding_names env_broken process_start)
     = Inl (ValueError ''tiktoken plugin p2 does not define ENCODING_CONSTRUCTORS'')
   \<and> map_option (map fst)
        (ENCODING_CONSTRUCTORS (snd (list_encoding_names env_broken process_start))) = Some [''a'']
   \<and> list_encoding_names env_broken (snd (list_encoding_names env_broken process_start))
       = (Inr [''a''], snd (list_encoding_names env_broken process_start))
   \<and> trace (snd (list_encoding_names env_broken process_start)) = [Import ''p1'', Import ''p2'']"
  by (simp add: registry_defs env_broken_def malformed_msg_def)

text \<open>
  C4: after two plugins have registered the same name \<open>x\<close>, the build raises the
  duplicate-name \<open>ValueError\<close> that names \<open>x\<close> and the second plugin, and \<open>x\<close> is never
  constructible afterwards. The first half holds in the code, the second does not: in
  \<open>env_duplicate\<close> the first \<open>get_encoding("x")\<close> raises, and the second one returns an
  encoding built by the factory of the first plugin, which the failed build left in the table.
\<close>

theorem duplicate_name_constructible_after_failure:
  "fst (get_encoding env_duplicate ''x'' process_start)
     = Inl (ValueError ''Duplicate encoding name x in tiktoken plugin p2'')
   \<and> fst (get_encoding env_duplicate ''x'' (snd (get_encoding env_duplicate ''x'' process_start)))
     = Inr (Encoding_obj 3 [(''name'', ''x1'')])"
  by (simp add: registry_defs env_duplicate_def duplicate_msg_def factory_ok_def numeral_3_eq_3)

text \<open>
  C5: at any point of the process, when the table is there (built before, or built by this
  call) and does not have the name, \<open>get_encoding(name)\<close> raises the unknown-encoding
  \<open>ValueError\<close>; its message ends with the text of the whole list of plugin modules, from
  which exactly the names of the modules, in their order, can be read back; and the cache
  is what it was before the call.
\<close>

theorem unknown_encoding_raises:
  "ensure_constructors E (run E cs process_start) = (Inr tbl, s') \<Longrightarrow>
   name \<notin> set (map fst tbl) \<Longrightarrow>
     get_encoding E name (run E cs process_start) =
       (Inl (ValueError (''Unknown encoding '' @ name @ ''. Plugins found: ''
                          @ py_str_list (available_plugin_modules E))), s')
     \<and> read_str_list Open [] [] (py_str_list (available_plugin_modules E))
         = Some (available_plugin_modules E)
     \<and> ENCODINGS s' = ENCODINGS (run E cs process_start)"
proof -
  assume a: "ensure_constructors E (run E cs process_start) = (Inr tbl, s')"
    and b: "name \<notin> set (map fst tbl)"
  have inv: "cache_registered (run E cs process_start)"
    using cache_registered_start by (rule run_registered)
  have "ENCODINGS s' = ENCODINGS (run E cs process_start)"
    using ensure_constructors_ENCODINGS [of E "run E cs process_start"] a by simp
  then show ?thesis
    using unknown_name_lookup [OF inv a b] read_py_str_list by (simp add: unknown_msg_def)
qed

theorem unknown_encoding_raises_witness:
  "get_encoding env_odd_names ''does-not-exist''
       (run env_odd_names [GetEncoding ''a''] process_start) =
     (Inl (ValueError (''Unknown encoding does-not-exist. Plugins found: ['p1', ''
         @ [CHR 0x22] @ ''it's'' @ [CHR 0x22] @ '', 'a'' @ [CHR 0x5C, CHR 0x5C] @ ''b']'')),
      run env_odd_names [GetEncoding ''a''] process_start)
   \<and> read_str_list Open [] []
        (''['p1', '' @ [CHR 0x22] @ ''it's'' @ [CHR 0x22] @ '', 'a'' @ [CHR 0x5C, CHR 0x5C] @ ''b']'')
       = Some [''p1'', ''it's'', [CHR ''a'', CHR 0x5C, CHR ''b'']]
   \<and> dom (ENCODINGS (run env_odd_names [GetEncoding ''a''] process_start)) = {''a''}"
proof -
  let ?s = "run env_odd_names [GetEncoding ''a''] process_start"
  let ?tbl = "[(''a'', factory_ok ''a'')]"
  have s: "?s = \<lparr>ENCODINGS = [''a'' \<mapsto> Encoding_obj 4 [(''name'', ''a'')]],
                  ENCODING_CONSTRUCTORS = Some ?tbl,
                  trace = [Import ''p1'', Import ''it's'', Import [CHR ''a'', CHR 0x5C, CHR ''b''],
                           Factory ''a'', Build ''a'']\<rparr>"
    by (simp add: registry_defs env_odd_names_def factory_ok_def eval_nat_numeral)
  have e: "ensure_constructors env_odd_names ?s = (Inr ?tbl, ?s)"
    unfolding s by (simp add: ensure_constructors_def)
  have n: "''does-not-exist'' \<notin> set (map fst ?tbl)" by simp
  have p: "py_str_list [''p1'', ''it's'', [CHR ''a'', CHR 0x5C, CHR ''b'']]
      = ''['p1', '' @ [CHR 0x22] @ ''it's'' @ [CHR 0x22] @ '', 'a'' @ [CHR 0x5C, CHR 0x5C] @ ''b']''"
    by (simp add: py_str_list_def py_repr_str_def py_quote_def py_escape_char_def
        py_isprintable_def)
  have a: "available_plugin_modules env_odd_names = [''p1'', ''it's'', [CHR ''a'', CHR 0x5C, CHR ''b'']]"
    by (simp add: env_odd_names_def)
  have d: "dom (ENCODINGS ?s) = {''a''}" unfolding s by simp
  show ?thesis
    using unknown_encoding_raises [OF e n] d unfolding a p by simp
qed

text \<open>
  C6. When every plugin is well formed and no name is registered twice,
  \<open>list_encoding_names()\<close>, called at any point of the process, returns every name the
  plugins contribute, in insertion order: plugin after plugin in enumeration order, and
  inside a plugin in the order of its dictionary. In every state and environment the call
  invokes no factory and no \<open>Encoding(...)\<close>, and it leaves the cache as it is.
\<close>

theorem list_encoding_names_complete:
  "(plugins_ok E \<longrightarrow>
      fst (list_encoding_names E (run E cs process_start))
        = Inr (map fst (contributed E (available_plugin_modules E))))
   \<and> filter is_construction (trace (snd (list_encoding_names E s)))
        = filter is_construction (trace s)
   \<and> ENCODINGS (snd (list_encoding_names E s)) = ENCODINGS s"
proof -
  have start: "ENCODING_CONSTRUCTORS process_start = None \<or>
      ENCODING_CONSTRUCTORS process_start = Some (contributed E (available_plugin_modules E))"
    by (simp add: process_start_def)
  have a: "plugins_ok E \<Longrightarrow> fst (list_encoding_names E (run E cs process_start))
        = Inr (map fst (contributed E (available_plugin_modules E)))"
    using run_table_ok [OF _ start] list_encoding_names_ok by blast
  have b: "filter is_construction (trace (snd (list_encoding_names E s)))
        = filter is_construction (trace s)"
    by (intro list_encoding_names_filter) simp
  show ?thesis using a b list_encoding_names_ENCODINGS by blast
qed

theorem list_encoding_names_complete_witness:
  "plugins_ok env_two_plugins \<and>
   fst (list_encoding_names env_two_plugins
         (run env_two_plugins [GetEncoding ''b'', GetEncoding ''zz''] process_start))
     = Inr [''a'', ''b'', ''c'']"
proof -
  have ok: "plugins_ok env_two_plugins"
    by (simp add: plugins_ok_def env_two_plugins_def contributed_def)
  have names: "map fst (contributed env_two_plugins (available_plugin_modules env_two_plugins))
      = [''a'', ''b'', ''c'']"
    by (simp add: env_two_plugins_def contributed_def)
  show ?thesis
    using list_encoding_names_complete
      [of env_two_plugins "[GetEncoding ''b'', GetEncoding ''zz'']"] ok names
    by simp
qed

text \<open>
  C7: when the factory raises, or \<open>Encoding(...)\<close> raises on what the factory returned,
  \<open>get_encoding(name)\<close> raises that same exception and the cache is unchanged; and any
  later \<open>get_encoding(name)\<close> that still finds the name uncached invokes the factory
  again, and \<open>Encoding(...)\<close> again if the factory returns.
\<close>

theorem construction_failure_not_cached:
  assumes "ENCODINGS s name = None"
    and "ensure_constructors E s = (Inr tbl, s0)"
    and "map_of tbl name = Some c"
    and "c (trace s0) = Inl e \<or>
      (\<exists>kwargs. c (trace s0) = Inr kwargs \<and>
         Encoding_init E (trace s0 @ [Factory name]) kwargs = Some e)"
  shows "fst (get_encoding E name s) = Inl e \<and>
    ENCODINGS (snd (get_encoding E name s)) = ENCODINGS s \<and>
    (ENCODINGS (run E cs (snd (get_encoding E name s))) name = None \<longrightarrow>
       trace (snd (get_encoding E name (run E cs (snd (get_encoding E name s))))) =
         trace (run E cs (snd (get_encoding E name s))) @ Factory name #
           (case c (trace (run E cs (snd (get_encoding E name s)))) of
              Inl e' \<Rightarrow> [] | Inr kwargs \<Rightarrow> [Build name]))"
proof -
  let ?s1 = "snd (get_encoding E name s)"
  have g: "get_encoding E name s = construct E name c s0"
    using assms(1,2,3) by (simp add: get_encoding_def)
  have r: "fst (get_encoding E name s) = Inl e"
    using g construct_raises [of c s0 e E name] assms(4) by simp
  then have "get_encoding E name s = (Inl e, ?s1)" by (metis prod.collapse)
  then have u: "ENCODINGS ?s1 = ENCODINGS s" by (rule get_encoding_Inl_ENCODINGS)
  have "ENCODING_CONSTRUCTORS s0 = Some tbl"
    using assms(2) by (rule ensure_constructors_Inr)
  then have "ENCODING_CONSTRUCTORS ?s1 = Some tbl"
    using g construct_ENCODING_CONSTRUCTORS [of E name c s0] by simp
  then have t: "ENCODING_CONSTRUCTORS (run E cs ?s1) = Some tbl" by (rule run_table)
  have "trace (snd (get_encoding E name (run E cs ?s1))) =
      trace (run E cs ?s1) @ Factory name #
        (case c (trace (run E cs ?s1)) of Inl e' \<Rightarrow> [] | Inr kwargs \<Rightarrow> [Build name])"
    if "ENCODINGS (run E cs ?s1) name = None"
    using get_encoding_built [OF that t assms(3)] construct_trace_exact by simp
  then show ?thesis using r u by blast
qed

theorem construction_failure_not_cached_witness:
  "fst (get_encoding env_flaky ''x'' process_start) = Inl (OtherError ''not ready'')
   \<and> ENCODINGS (snd (get_encoding env_flaky ''x'' process_start)) = Map.empty
   \<and> trace (snd (get_encoding env_flaky ''x''
       (run env_flaky [ListEncodingNames] (snd (get_encoding env_flaky ''x'' process_start))))) =
     [Import ''p1'', Factory ''x'', Factory ''x'', Build ''x'']
   \<and> fst (get_encoding env_bad_params ''x'' process_start) = Inl (OtherError ''bad arguments'')
   \<and> ENCODINGS (snd (get_encoding env_bad_params ''x'' process_start)) = Map.empty
   \<and> trace (snd (get_encoding env_bad_params ''x''
       (run env_bad_params [] (snd (get_encoding env_bad_params ''x'' process_start))))) =
     [Import ''p1'', Factory ''x'', Build ''x'', Factory ''x'', Build ''x'']"
proof -
  let ?s0 = "\<lparr>ENCODINGS = Map.empty,
               ENCODING_CONSTRUCTORS = Some [(''x'', factory_flaky ''x'')],
               trace = [Import ''p1'']\<rparr>"
  let ?t0 = "\<lparr>ENCODINGS = Map.empty,
               ENCODING_CONSTRUCTORS = Some [(''x'', factory_ok ''x'')],
               trace = [Import ''p1'']\<rparr>"
  have h1: "ENCODINGS process_start ''x'' = None" by (simp add: process_start_def)
  have h2: "ensure_constructors env_flaky process_start = (Inr [(''x'', factory_flaky ''x'')], ?s0)"
    by (simp add: registry_defs env_flaky_def)
  have h3: "map_of [(''x'', factory_flaky ''x'')] ''x'' = Some (factory_flaky ''x'')" by simp
  have h4: "factory_flaky ''x'' (trace ?s0) = Inl (OtherError ''not ready'') \<or>
      (\<exists>kwargs. factory_flaky ''x'' (trace ?s0) = Inr kwargs \<and>
         Encoding_init env_flaky (trace ?s0 @ [Factory ''x'']) kwargs = Some (OtherError ''not ready''))"
    by (simp add: factory_flaky_def)
  have s1: "snd (get_encoding env_flaky ''x'' process_start) = ?s0\<lparr>trace := [Import ''p1'', Factory ''x'']\<rparr>"
    by (simp add: registry_defs env_flaky_def factory_flaky_def)
  have s2: "run env_flaky [ListEncodingNames] (?s0\<lparr>trace := [Import ''p1'', Factory ''x'']\<rparr>)
      = ?s0\<lparr>trace := [Import ''p1'', Factory ''x'']\<rparr>"
    by (simp add: registry_defs)
  have a: "fst (get_encoding env_flaky ''x'' process_start) = Inl (OtherError ''not ready'')
   \<and> ENCODINGS (snd (get_encoding env_flaky ''x'' process_start)) = Map.empty
   \<and> trace (snd (get_encoding env_flaky ''x''
       (run env_flaky [ListEncodingNames] (snd (get_encoding env_flaky ''x'' process_start))))) =
     [Import ''p1'', Factory ''x'', Factory ''x'', Build ''x'']"
    using construction_failure_not_cached [OF h1 h2 h3 h4, of "[ListEncodingNames]"]
    unfolding s1 s2 by (simp add: factory_flaky_def process_start_def)
  have k2: "ensure_constructors env_bad_params process_start = (Inr [(''x'', factory_ok ''x'')], ?t0)"
    by (simp add: registry_defs env_bad_params_def)
  have k3: "map_of [(''x'', factory_ok ''x'')] ''x'' = Some (factory_ok ''x'')" by simp
  have k4: "factory_ok ''x'' (trace ?t0) = Inl (OtherError ''bad arguments'') \<or>
      (\<exists>kwargs. factory_ok ''x'' (trace ?t0) = Inr kwargs \<and>
         Encoding_init env_bad_params (trace ?t0 @ [Factory ''x'']) kwargs
           = Some (OtherError ''bad arguments''))"
    by (simp add: factory_ok_def env_bad_params_def)
  have t1: "snd (get_encoding env_bad_params ''x'' process_start)
      = ?t0\<lparr>trace := [Import ''p1'', Factory ''x'', Build ''x'']\<rparr>"
    by (simp add: registry_defs env_bad_params_def factory_ok_def)
  have b: "fst (get_encoding env_bad_params ''x'' process_start) = Inl (OtherError ''bad arguments'')
   \<and> ENCODINGS (snd (get_encoding env_bad_params ''x'' process_start)) = Map.empty
   \<and> trace (snd (get_encoding env_bad_params ''x''
       (run env_bad_params [] (snd (get_encoding env_bad_params ''x'' process_start))))) =
     [Import ''p1'', Factory ''x'', Build ''x'', Factory ''x'', Build ''x'']"
    using construction_failure_not_cached [OF h1 k2 k3 k4, of "[]"]
    unfolding t1 by (simp add: factory_ok_def process_start_def)
  show ?thesis using a b by blast
qed

text \<open>
  C8: once the table is built, \<open>_find_constructors()\<close> returns at once and changes
  nothing, and any sequence of calls of the public operations keeps the same table and
  imports no plugin module.
\<close>

theorem table_build_idempotent:
  "ENCODING_CONSTRUCTORS s = Some tbl \<Longrightarrow>
     find_constructors E s = (None, s) \<and>
     ENCODING_CONSTRUCTORS (run E cs s) = Some tbl \<and>
     filter is_import (trace (run E cs s)) = filter is_import (trace s)"
  by (simp add: find_constructors_built run_table run_built_imports)

theorem table_build_idempotent_witness:
  "ENCODING_CONSTRUCTORS (snd (list_encoding_names env_two_plugins process_start))
     = Some [(''a'', factory_ok ''a''), (''b'', factory_ok ''b''), (''c'', factory_ok ''c'')]
   \<and> find_constructors env_two_plugins (snd (list_encoding_names env_two_plugins process_start))
     = (None, snd (list_encoding_names env_two_plugins process_start))
   \<and> filter is_import (trace (run env_two_plugins [GetEncoding ''a'', ListEncodingNames]
        (snd (list_encoding_names env_two_plugins process_start))))
     = [Import ''p1'', Import ''p2'']"
proof -
  let ?s = "snd (list_encoding_names env_two_plugins process_start)"
  have h: "ENCODING_CONSTRUCTORS ?s
      = Some [(''a'', factory_ok ''a''), (''b'', factory_ok ''b''), (''c'', factory_ok ''c'')]"
    by (simp add: registry_defs env_two_plugins_def)
  have t: "filter is_import (trace ?s) = [Import ''p1'', Import ''p2'']"
    by (simp add: registry_defs env_two_plugins_def)
  show ?thesis
    using table_build_idempotent
      [OF h, of env_two_plugins "[GetEncoding ''a'', ListEncodingNames]"] h t
    by simp
qed

text \<open>
  C9: an object stored in the cache under a name stays there, unchanged, after every call
  and every sequence of calls of the public operations; a single call either leaves the
  cache as it is or adds one entry under a name that had none.
\<close>

theorem cache_grows_monotonically:
  "(ENCODINGS s n = Some enc \<longrightarrow>
      ENCODINGS (after_call E c s) n = Some enc \<and> ENCODINGS (run E cs s) n = Some enc)
   \<and> (ENCODINGS (after_call E c s) = ENCODINGS s \<or>
      (\<exists>name obj. ENCODINGS s name = None \<and>
         ENCODINGS (after_call E c s) = (ENCODINGS s)(name \<mapsto> obj)))"
proof -
  have "ENCODINGS (after_call E c s) = ENCODINGS s \<or>
      (\<exists>name obj. ENCODINGS s name = None \<and>
         ENCODINGS (after_call E c s) = (ENCODINGS s)(name \<mapsto> obj))"
  proof (cases c)
    case (GetEncoding name)
    then show ?thesis using get_encoding_change [of E name s] by auto
  next
    case ListEncodingNames
    then show ?thesis by (simp add: list_encoding_names_ENCODINGS)
  qed
  then show ?thesis using after_call_keeps run_keeps by blast
qed

theorem cache_grows_monotonically_witness:
  "ENCODINGS (snd (get_encoding env_two_plugins ''a'' process_start)) ''a''
     = Some (Encoding_obj 3 [(''name'', ''a'')])
   \<and> ENCODINGS (after_call env_two_plugins (GetEncoding ''b'')
        (snd (get_encoding env_two_plugins ''a'' process_start))) ''a''
     = Some (Encoding_obj 3 [(''name'', ''a'')])
   \<and> ENCODINGS (run env_two_plugins [GetEncoding ''b'', ListEncodingNames, GetEncoding ''a'']
        (snd (get_encoding env_two_plugins ''a'' process_start))) ''a''
     = Some (Encoding_obj 3 [(''name'', ''a'')])"
proof -
  have h: "ENCODINGS (snd (get_encoding env_two_plugins ''a'' process_start)) ''a''
      = Some (Encoding_obj 3 [(''name'', ''a'')])"
    by (simp add: registry_defs env_two_plugins_def factory_ok_def numeral_3_eq_3)
  show ?thesis
    using cache_grows_monotonically
      [of "snd (get_encoding env_two_plugins ''a'' process_start)" "''a''"
          "Encoding_obj 3 [(''name'', ''a'')]" env_two_plugins "GetEncoding ''b''"
          "[GetEncoding ''b'', ListEncodingNames, GetEncoding ''a'']"] h
    by blast
qed

text \<open>
  C10: the three failures the registry raises itself are all \<open>ValueError\<close> with a message
  and nothing else: a plugin without \<open>ENCODING_CONSTRUCTORS\<close>, a duplicate name (the only
  way a well-formed plugin can fail), and an unknown encoding. An \<open>ImportError\<close> of a
  plugin import comes out as it was raised. Every exception of \<open>list_encoding_names()\<close>
  is a \<open>ValueError\<close> or the exception some plugin import raised.
\<close>

theorem registry_errors_are_ValueError:
  "(import_module E m = NoConstructors \<longrightarrow>
      load_plugin E m tbl = (Some (ValueError (malformed_msg m)), tbl))
   \<and> (import_module E m = Constructors cs \<and> fst (load_plugin E m tbl) = Some e \<longrightarrow>
      (\<exists>n \<in> set (map fst cs). e = ValueError (duplicate_msg n m)))
   \<and> (ENCODINGS s name = None \<and> ENCODING_CONSTRUCTORS s = Some tbl \<and>
        name \<notin> set (map fst tbl) \<longrightarrow>
      get_encoding E name s =
        (Inl (ValueError (unknown_msg name (available_plugin_modules E))), s))
   \<and> (import_module E m = ImportRaises (ImportError msg) \<longrightarrow>
      load_plugin E m tbl = (Some (ImportError msg), tbl))
   \<and> (fst (list_encoding_names E s) = Inl e \<longrightarrow>
      (\<exists>msg. e = ValueError msg) \<or>
      (\<exists>m \<in> set (available_plugin_modules E). import_module E m = ImportRaises e))"
proof -
  have a: "load_plugin E m tbl = (Some (ValueError (malformed_msg m)), tbl)"
    if "import_module E m = NoConstructors"
    using that by (simp add: load_plugin_def try_body_def)
  have b: "\<exists>n \<in> set (map fst cs). e = ValueError (duplicate_msg n m)"
    if "import_module E m = Constructors cs" "fst (load_plugin E m tbl) = Some e"
    using that by (rule load_plugin_duplicate)
  have c: "get_encoding E name s =
        (Inl (ValueError (unknown_msg name (available_plugin_modules E))), s)"
    if "ENCODINGS s name = None" "ENCODING_CONSTRUCTORS s = Some tbl" "name \<notin> set (map fst tbl)"
  proof -
    have "map_of tbl name = None" using that(3) by (simp add: map_of_eq_None_iff)
    then show ?thesis
      using that(1,2) by (simp add: get_encoding_def ensure_constructors_built)
  qed
  have d: "load_plugin E m tbl = (Some (ImportError msg), tbl)"
    if "import_module E m = ImportRaises (ImportError msg)"
    using that by (simp add: load_plugin_def try_body_def)
  show ?thesis using a b c d list_encoding_names_error by blast
qed

theorem registry_errors_are_ValueError_witness:
  "load_plugin env_broken ''p2'' [(''a'', factory_ok ''a'')]
     = (Some (ValueError ''tiktoken plugin p2 does not define ENCODING_CONSTRUCTORS''),
        [(''a'', factory_ok ''a'')])
   \<and> fst (load_plugin env_duplicate ''p2'' [(''x'', factory_ok ''x1'')])
       = Some (ValueError ''Duplicate encoding name x in tiktoken plugin p2'')
   \<and> fst (get_encoding env_duplicate ''y''
        \<lparr>ENCODINGS = Map.empty, ENCODING_CONSTRUCTORS = Some [(''x'', factory_ok ''x1'')],
         trace = []\<rparr>)
       = Inl (ValueError ''Unknown encoding y. Plugins found: ['p1', 'p2']'')
   \<and> load_plugin env_broken ''p4'' [] = (Some (ImportError ''no such module''), [])
   \<and> fst (list_encoding_names env_broken process_start)
       = Inl (ValueError ''tiktoken plugin p2 does not define ENCODING_CONSTRUCTORS'')"
proof -
  let ?s = "\<lparr>ENCODINGS = Map.empty, ENCODING_CONSTRUCTORS = Some [(''x'', factory_ok ''x1'')],
         trace = []\<rparr>"
  have h1: "import_module env_broken ''p2'' = NoConstructors"
    by (simp add: env_broken_def)
  have h2: "import_module env_duplicate ''p2'' = Constructors [(''x'', factory_ok ''x2'')]
      \<and> fst (load_plugin env_duplicate ''p2'' [(''x'', factory_ok ''x1'')])
          = Some (ValueError (duplicate_msg ''x'' ''p2''))"
    by (simp add: env_duplicate_def load_plugin_def try_body_def)
  have h3: "ENCODINGS ?s ''y'' = None \<and> ENCODING_CONSTRUCTORS ?s = Some [(''x'', factory_ok ''x1'')]
      \<and> ''y'' \<notin> set (map fst [(''x'', factory_ok ''x1'')])"
    by simp
  have h4: "import_module env_broken ''p4'' = ImportRaises (ImportError ''no such module'')"
    by (simp add: env_broken_def)
  have h5: "fst (list_encoding_names env_broken process_start)
      = Inl (ValueError (malformed_msg ''p2''))"
    by (simp add: registry_defs env_broken_def)
  have m: "malformed_msg ''p2'' = ''tiktoken plugin p2 does not define ENCODING_CONSTRUCTORS''"
    by (simp add: malformed_msg_def)
  have d: "duplicate_msg ''x'' ''p2'' = ''Duplicate encoding name x in tiktoken plugin p2''"
    by (simp add: duplicate_msg_def)
  have u: "unknown_msg ''y'' (available_plugin_modules env_duplicate)
      = ''Unknown encoding y. Plugins found: ['p1', 'p2']''"
    by (simp add: unknown_msg_def py_str_list_def py_repr_str_def py_quote_def
        py_escape_char_def py_isprintable_def env_duplicate_def)
  have t1: "load_plugin env_broken ''p2'' [(''a'', factory_ok ''a'')]
      = (Some (ValueError (malformed_msg ''p2'')), [(''a'', factory_ok ''a'')])"
    using registry_errors_are_ValueError
      [of env_broken "''p2''" "[(''a'', factory_ok ''a'')]"] h1 by blast
  have t3: "get_encoding env_duplicate ''y'' ?s
      = (Inl (ValueError (unknown_msg ''y'' (available_plugin_modules env_duplicate))), ?s)"
    using registry_errors_are_ValueError
      [of env_duplicate _ "[(''x'', factory_ok ''x1'')]" _ _ ?s "''y''"] h3 by blast
  have t4: "load_plugin env_broken ''p4'' [] = (Some (ImportError ''no such module''), [])"
    using registry_errors_are_ValueError [of env_broken "''p4''" "[]" _ _ _ _ "''no such module''"] h4
    by blast
  show ?thesis using t1 t3 t4 h2 h5 m d u by simp
qed

end
